theory Spec2Isabelle
  imports Complex_Main
begin

section \<open>JavaScript strings and numbers\<close>

text \<open>
  A JavaScript string is modelled as a \<^typ>\<open>string\<close> (one \<^typ>\<open>char\<close> per code unit,
  restricted to the 8-bit range), so \<open>length\<close> is the \<open>.length\<close> of the source and
  \<open>@\<close> is \<open>+\<close> on strings. Numbers that the source uses as counters, line numbers and
  timestamps are naturals; exit codes and character budgets are integers.
\<close>

definition nl :: string where
  "nl = [CHR 0x0A]"

definition dquote :: string where
  "dquote = [CHR 0x22]"

text \<open>\<open>String.prototype.trim\<close> and the regular expression class \<open>\s\<close> strip the same
  characters: TAB, LF, VT, FF, CR, SP and NBSP are the ones below 256.\<close>

definition is_ws :: "char \<Rightarrow> bool" where
  "is_ws c = (c = CHR 0x09 \<or> c = CHR 0x0A \<or> c = CHR 0x0B \<or> c = CHR 0x0C \<or> c = CHR 0x0D
              \<or> c = CHR 0x20 \<or> c = CHR 0xA0)"

definition trim :: "string \<Rightarrow> string" where
  "trim s = rev (dropWhile is_ws (rev (dropWhile is_ws s)))"

text \<open>\<open>Array.prototype.join\<close>.\<close>

fun join :: "string \<Rightarrow> string list \<Rightarrow> string" where
  "join sep [] = []"
| "join sep [x] = x"
| "join sep (x # y # ys) = x @ sep @ join sep (y # ys)"

text \<open>\<open>String(n)\<close> for a non-negative integer and for an integer: decimal digits, with a
  leading minus sign for a negative number.\<close>

definition digit_chars :: string where
  "digit_chars = ''0123456789''"

fun string_of_nat :: "nat \<Rightarrow> string" where
  "string_of_nat n =
     (if n < 10 then [digit_chars ! n]
      else string_of_nat (n div 10) @ [digit_chars ! (n mod 10)])"

declare string_of_nat.simps [simp del]

definition string_of_int :: "int \<Rightarrow> string" where
  "string_of_int i = (if i < 0 then CHR ''-'' # string_of_nat (nat (- i)) else string_of_nat (nat i))"

text \<open>\<open>s.slice(start)\<close> with one argument: a negative start counts from the end, a start
  beyond the end gives the empty string.\<close>

definition slice_from :: "int \<Rightarrow> string \<Rightarrow> string" where
  "slice_from start s =
     (if start < 0 then drop (nat (max 0 (int (length s) + start))) s else drop (nat start) s)"

text \<open>\<open>s.includes(t)\<close>: \<open>t\<close> occurs in \<open>s\<close> as a contiguous substring.\<close>

fun js_includes :: "string \<Rightarrow> string \<Rightarrow> bool" where
  "js_includes [] t = (t = [])"
| "js_includes (c # s) t = (take (length t) (c # s) = t \<or> js_includes s t)"

section \<open>Process results and the validator\<close>

record SpawnResult =
  stdout :: string
  stderr :: string
  exitCode :: int
  duration :: nat

record ValidationResult = SpawnResult +
  command :: string
  passed :: bool

record ValidationReport =
  allPassed :: bool
  results :: "ValidationResult list"
  passCount :: nat
  totalCount :: nat

text \<open>\<open>runValidations\<close> runs the commands in order through the shell. The shell is an
  oracle: \<open>sh k cmd\<close> is the result of the \<open>k\<close>-th command of this run.\<close>

definition mkResult :: "string \<Rightarrow> SpawnResult \<Rightarrow> ValidationResult" where
  "mkResult cmd r =
     \<lparr> stdout = stdout r, stderr = stderr r, exitCode = exitCode r, duration = duration r,
       command = cmd, passed = (exitCode r = 0) \<rparr>"

definition runValidations :: "(nat \<Rightarrow> string \<Rightarrow> SpawnResult) \<Rightarrow> string list \<Rightarrow> ValidationReport" where
  "runValidations sh commands =
     (let rs = map (\<lambda>(k, cmd). mkResult cmd (sh k cmd)) (enumerate 0 commands);
          pc = length (filter passed rs)
      in \<lparr> allPassed = (pc = length rs), results = rs, passCount = pc, totalCount = length rs \<rparr>)"

definition scoreValidation :: "ValidationReport \<Rightarrow> nat" where
  "scoreValidation report = passCount report"

definition sentinel :: string where
  "sentinel = ''...(truncated)'' @ nl"

definition formatSection :: "ValidationResult \<Rightarrow> string" where
  "formatSection r =
     (let status = (if passed r then ''PASSED''
                    else ''FAILED (exit code '' @ string_of_int (exitCode r) @ '')'');
          header = ''### '' @ command r @ '' ('' @ status @ '')'' @ nl;
          output = (if trim (stderr r) \<noteq> [] then trim (stderr r) else trim (stdout r))
      in if \<not> passed r \<and> output \<noteq> []
         then header @ ''```'' @ nl @ output @ nl @ ''```'' @ nl
         else header)"

definition fullText :: "ValidationReport \<Rightarrow> string" where
  "fullText report = join nl (map formatSection (results report))"

definition formatFailureContext :: "ValidationReport \<Rightarrow> int \<Rightarrow> string" where
  "formatFailureContext report maxChars =
     (if allPassed report then []
      else let full = fullText report
           in if int (length full) > maxChars
              then sentinel @ slice_from (int (length full) - maxChars + 20) full
              else full)"

section \<open>The persisted store\<close>

datatype AgentName = claude | codex | opencode

datatype RunStatus = Queued | Running | Paused | Completed | Failed | Cancelled

datatype EventType =
    thread_created | thread_worktree_created
  | review_comment_created | review_rerun_queued
  | automation_created | automation_triggered
  | run_queued | run_started | run_paused | run_resumed | run_cancelled
  | run_completed | run_failed
  | loop_iteration_started | loop_agent_spawned | loop_agent_exited
  | loop_validation_completed | loop_regression_reverted | loop_checkpoint_committed

text \<open>Values of an event payload (\<open>Record<string, unknown>\<close>).\<close>

datatype jvalue = JStr string | JNum int | JBool bool | JList "jvalue list" | JUndefined

type_synonym payload = "(string \<times> jvalue) list"

record ThreadRecord =
  thread_id :: string
  thread_name :: string
  thread_task :: string
  thread_repoPath :: string
  thread_baseRepoPath :: string
  thread_worktreePath :: "string option"
  thread_branchName :: "string option"
  thread_agent :: AgentName
  thread_validate :: "string list"
  thread_createdAt :: nat
  thread_updatedAt :: nat

record RunRecord =
  run_id :: string
  run_threadId :: string
  status :: RunStatus
  run_maxIterations :: nat
  iterations :: nat
  taskOverride :: "string option"
  sourceRunId :: "string option"
  run_error :: "string option"
  run_createdAt :: nat
  startedAt :: "nat option"
  finishedAt :: "nat option"

record EventRecord =
  event_id :: nat
  event_threadId :: string
  event_runId :: "string option"
  event_type :: EventType
  event_payload :: payload
  event_createdAt :: nat

datatype CommentStatus = Open | Applied

record ReviewCommentRecord =
  comment_id :: nat
  comment_threadId :: string
  comment_runId :: "string option"
  filePath :: string
  lineNumber :: nat
  body :: string
  comment_status :: CommentStatus
  comment_createdAt :: nat

record AutomationRecord =
  automation_id :: string
  automation_name :: string
  cron :: string
  automation_threadId :: "string option"
  automation_maxIterations :: nat
  enabled :: bool
  lastRunAt :: "nat option"
  automation_createdAt :: nat
  automation_updatedAt :: nat

text \<open>
  The state behind \<open>RalphDatabase\<close>: the rows of the tables \<open>threads\<close>, \<open>runs\<close>,
  \<open>events\<close>, \<open>review_comments\<close> and \<open>automations\<close> in insertion order, and the two sources
  of values the database methods read from the platform: the system clock (\<open>clock k\<close> is
  the value of the \<open>k\<close>-th call of \<open>Date.now()\<close>) and \<open>randomUUID()\<close> (\<open>uuids k\<close> is the
  \<open>k\<close>-th identifier drawn). Foreign keys are declared in the schema but the connection
  does not switch their enforcement on, so they are not part of the model.
\<close>

record Store =
  threads :: "ThreadRecord list"
  runs :: "RunRecord list"
  journal :: "EventRecord list"
  review_comments :: "ReviewCommentRecord list"
  automations :: "AutomationRecord list"
  clock :: "nat \<Rightarrow> nat"
  clock_reads :: nat
  uuids :: "nat \<Rightarrow> string"
  uuid_draws :: nat

definition Date_now :: "Store \<Rightarrow> nat \<times> Store" where
  "Date_now st = (clock st (clock_reads st), st\<lparr>clock_reads := Suc (clock_reads st)\<rparr>)"


text \<open>\<open>SELECT ... WHERE id = ?\<close> with \<open>.get\<close>: the first matching row.\<close>

definition getThread :: "Store \<Rightarrow> string \<Rightarrow> ThreadRecord option" where
  "getThread st i = find (\<lambda>t. thread_id t = i) (threads st)"

definition getRun :: "Store \<Rightarrow> string \<Rightarrow> RunRecord option" where
  "getRun st i = find (\<lambda>r. run_id r = i) (runs st)"

text \<open>\<open>UPDATE threads SET updated_at = ? WHERE id = ?\<close> with \<open>Date.now()\<close>.\<close>

definition touchThread :: "string \<Rightarrow> Store \<Rightarrow> Store" where
  "touchThread threadId st =
     (let (now, st1) = Date_now st
      in st1\<lparr>threads :=
              map (\<lambda>t. if thread_id t = threadId then t\<lparr>thread_updatedAt := now\<rparr> else t)
                  (threads st1)\<rparr>)"

text \<open>The optional fields of the \<open>updates\<close> argument of \<open>updateRunStatus\<close>.\<close>

record RunUpdates =
  u_iterations :: "nat option"
  u_error :: "string option"
  u_startedAt :: "nat option"
  u_finishedAt :: "nat option"

definition no_updates :: RunUpdates where
  "no_updates = \<lparr> u_iterations = None, u_error = None, u_startedAt = None, u_finishedAt = None \<rparr>"

text \<open>\<open>a ?? b\<close> on an optional value.\<close>

definition nullish :: "'a option \<Rightarrow> 'a option \<Rightarrow> 'a option" where
  "nullish a b = (case a of Some x \<Rightarrow> Some x | None \<Rightarrow> b)"

text \<open>The row that \<open>updateRunStatus\<close> writes: the new status, and for each other column
  the supplied value or else the value of the row \<open>run\<close> read before.\<close>

definition updatedRun :: "RunStatus \<Rightarrow> RunUpdates \<Rightarrow> RunRecord \<Rightarrow> RunRecord \<Rightarrow> RunRecord" where
  "updatedRun st_new updates run row =
     row\<lparr> status := st_new,
          iterations := (case u_iterations updates of Some n \<Rightarrow> n | None \<Rightarrow> iterations run),
          run_error := nullish (u_error updates) (run_error run),
          startedAt := nullish (u_startedAt updates) (startedAt run),
          finishedAt := nullish (u_finishedAt updates) (finishedAt run) \<rparr>"

definition updateRunStatus :: "string \<Rightarrow> RunStatus \<Rightarrow> RunUpdates \<Rightarrow> Store \<Rightarrow> Store" where
  "updateRunStatus runId st_new updates st =
     (case getRun st runId of
        None \<Rightarrow> st
      | Some run \<Rightarrow>
          touchThread (run_threadId run)
            (st\<lparr>runs := map (\<lambda>row. if run_id row = runId then updatedRun st_new updates run row
                                   else row) (runs st)\<rparr>))"

text \<open>\<open>appendEvent\<close>: the row id is assigned by \<open>AUTOINCREMENT\<close>; rows are never deleted,
  so it is one more than the number of rows.\<close>

definition appendEvent :: "string \<Rightarrow> string option \<Rightarrow> EventType \<Rightarrow> payload \<Rightarrow> Store \<Rightarrow> EventRecord \<times> Store" where
  "appendEvent threadId runId ty pl st =
     (let (now, st1) = Date_now st;
          ev = \<lparr> event_id = Suc (length (journal st1)), event_threadId = threadId,
                 event_runId = runId, event_type = ty, event_payload = pl,
                 event_createdAt = now \<rparr>
      in (ev, st1\<lparr>journal := journal st1 @ [ev]\<rparr>))"

text \<open>\<open>emitEvent\<close> of the daemon appends the event and broadcasts it to the connected
  observers; the broadcast leaves the store alone.\<close>

definition emitEvent :: "string \<Rightarrow> string option \<Rightarrow> EventType \<Rightarrow> payload \<Rightarrow> Store \<Rightarrow> Store" where
  "emitEvent threadId runId ty pl st = snd (appendEvent threadId runId ty pl st)"

section \<open>The run queue\<close>

text \<open>A JavaScript \<open>Set\<close> iterates in insertion order and holds no element twice.\<close>

definition set_add :: "'a \<Rightarrow> 'a list \<Rightarrow> 'a list" where
  "set_add x xs = (if x \<in> set xs then xs else xs @ [x])"

definition set_delete :: "'a \<Rightarrow> 'a list \<Rightarrow> 'a list" where
  "set_delete x xs = removeAll x xs"

text \<open>
  A JavaScript number: the capacity of the queue is whatever number the constructor is
  given, and the daemon passes \<open>Number(process.env.RALPHD_CONCURRENCY ?? 2)\<close>, which can
  be a fraction, negative, an infinity or \<open>NaN\<close>. \<open>size_below k c\<close> is the comparison
  \<open>k < c\<close> for a collection size \<open>k\<close>.
\<close>

datatype js_number = NaN | Num real | PlusInfinity | MinusInfinity

definition size_below :: "nat \<Rightarrow> js_number \<Rightarrow> bool" where
  "size_below k c =
     (case c of
        NaN \<Rightarrow> False
      | Num x \<Rightarrow> real k < x
      | PlusInfinity \<Rightarrow> True
      | MinusInfinity \<Rightarrow> False)"

text \<open>
  The \<open>RunQueue\<close> object together with the store it writes to. \<open>controllers\<close> maps a run
  id to the \<open>aborted\<close> flag of its \<open>AbortController\<close>. The hooks are the ones the daemon
  installs: \<open>onEvent\<close> is \<open>emitEvent\<close> and \<open>onRunExecute\<close> is \<open>executeRun\<close>.
\<close>

record RunQueue =
  store :: Store
  pending :: "string list"
  running :: "string list"
  controllers :: "string \<rightharpoonup> bool"
  maxConcurrent :: js_number

definition new_queue :: "Store \<Rightarrow> js_number \<Rightarrow> RunQueue" where
  "new_queue st c =
     \<lparr> store = st, pending = [], running = [], controllers = Map.empty, maxConcurrent = c \<rparr>"

text \<open>The part of \<open>executeRun\<close> that runs before its first \<open>await\<close>: a run whose thread is
  missing is marked failed at once; otherwise the loop is started and nothing is written
  yet.\<close>

definition executeRun_begin :: "RunRecord \<Rightarrow> Store \<Rightarrow> Store" where
  "executeRun_begin run st =
     (case getThread st (run_threadId run) of
        None \<Rightarrow>
          (let (now, st1) = Date_now st;
               st2 = updateRunStatus (run_id run) Failed
                       (no_updates\<lparr>u_finishedAt := Some now, u_error := Some ''Thread not found''\<rparr>) st1
           in emitEvent (run_threadId run) (Some (run_id run)) run_failed
                [(''message'', JStr ''Thread not found'')] st2)
      | Some thread \<Rightarrow> st)"

text \<open>\<open>execute\<close> up to its \<open>await\<close>: what happens inside the \<open>tick\<close> that starts the run.\<close>

definition execute :: "string \<Rightarrow> RunQueue \<Rightarrow> RunQueue" where
  "execute runId q =
     (case getRun (store q) runId of
        None \<Rightarrow> q
      | Some run \<Rightarrow>
          if status run \<noteq> Queued then q
          else
            (let (now, st1) = Date_now (store q);
                 st2 = updateRunStatus runId Running (no_updates\<lparr>u_startedAt := Some now\<rparr>) st1;
                 st3 = emitEvent (run_threadId run) (Some (run_id run)) run_started [] st2;
                 st4 = executeRun_begin run st3
             in q\<lparr> controllers := (controllers q)(runId \<mapsto> False),
                    running := set_add runId (running q),
                    store := st4 \<rparr>))"

lemma pending_execute [simp]: "pending (execute runId q) = pending q"
  by (simp add: execute_def Let_def split: option.splits prod.splits)

function tick :: "RunQueue \<Rightarrow> RunQueue" where
  "tick q =
     (if size_below (length (running q)) (maxConcurrent q) \<and> pending q \<noteq> [] then
        (let nextRunId = hd (pending q) in
         if nextRunId = [] then q
         else tick (execute nextRunId (q\<lparr>pending := set_delete nextRunId (pending q)\<rparr>)))
      else q)"
  by pat_completeness auto
termination
proof (relation "measure (\<lambda>q. length (pending q))")
  show "wf (measure (\<lambda>q. length (pending q)))" by simp
next
  fix q :: RunQueue and x
  assume "size_below (length (running q)) (maxConcurrent q) \<and> pending q \<noteq> []"
    and "x = hd (pending q)"
  then have "x \<in> set (pending q)" by simp
  then have "length (removeAll x (pending q)) < length (pending q)"
    by (rule length_removeAll_less)
  then show "(execute x (q\<lparr>pending := set_delete x (pending q)\<rparr>), q)
               \<in> measure (\<lambda>q. length (pending q))"
    by (simp add: set_delete_def)
qed

declare tick.simps [simp del]

text \<open>What the \<open>await\<close> of the executor resolves to.\<close>

datatype outcome = Returned | Threw string

text \<open>\<open>execute\<close> after its \<open>await\<close>, for the run record \<open>run\<close> it read at the start: the
  \<open>catch\<close> block when the executor threw, then the two deletions of the \<open>finally\<close>
  block, and last its \<open>tick\<close>.\<close>

definition execute_cleanup :: "RunRecord \<Rightarrow> outcome \<Rightarrow> RunQueue \<Rightarrow> RunQueue" where
  "execute_cleanup run out q =
     (let st1 = (case out of
                   Returned \<Rightarrow> store q
                 | Threw message \<Rightarrow>
                     (let (now, sa) = Date_now (store q);
                          sb = updateRunStatus (run_id run) Failed
                                 (no_updates\<lparr>u_error := Some message, u_finishedAt := Some now\<rparr>) sa
                      in emitEvent (run_threadId run) (Some (run_id run)) run_failed
                           [(''message'', JStr message)] sb))
      in q\<lparr> store := st1,
            controllers := (controllers q)(run_id run := None),
            running := set_delete (run_id run) (running q) \<rparr>)"

definition execute_settle :: "RunRecord \<Rightarrow> outcome \<Rightarrow> RunQueue \<Rightarrow> RunQueue" where
  "execute_settle run out q = tick (execute_cleanup run out q)"

definition enqueue :: "string \<Rightarrow> RunQueue \<Rightarrow> RunQueue" where
  "enqueue runId q = tick (q\<lparr>pending := set_add runId (pending q)\<rparr>)"

definition pause :: "string \<Rightarrow> RunQueue \<Rightarrow> bool \<times> RunQueue" where
  "pause runId q =
     (if runId \<notin> set (pending q) then (False, q)
      else case getRun (store q) runId of
             None \<Rightarrow> (False, q)
           | Some run \<Rightarrow>
               (let st1 = updateRunStatus runId Paused no_updates (store q);
                    st2 = emitEvent (run_threadId run) (Some (run_id run)) run_paused [] st1
                in (True, q\<lparr>pending := set_delete runId (pending q), store := st2\<rparr>)))"

definition resume :: "string \<Rightarrow> RunQueue \<Rightarrow> bool \<times> RunQueue" where
  "resume runId q =
     (case getRun (store q) runId of
        None \<Rightarrow> (False, q)
      | Some run \<Rightarrow>
          if status run \<noteq> Paused then (False, q)
          else
            (let st1 = updateRunStatus runId Queued no_updates (store q);
                 st2 = emitEvent (run_threadId run) (Some (run_id run)) run_resumed [] st1
             in (True, enqueue runId (q\<lparr>store := st2\<rparr>))))"

definition stop :: "string \<Rightarrow> RunQueue \<Rightarrow> bool \<times> RunQueue" where
  "stop runId q =
     (case getRun (store q) runId of
        None \<Rightarrow> (False, q)
      | Some run \<Rightarrow>
          if runId \<in> set (pending q) then
            (let (now, st1) = Date_now (store q);
                 st2 = updateRunStatus runId Cancelled (no_updates\<lparr>u_finishedAt := Some now\<rparr>) st1;
                 st3 = emitEvent (run_threadId run) (Some (run_id run)) run_cancelled [] st2
             in (True, q\<lparr>pending := set_delete runId (pending q), store := st3\<rparr>))
          else case controllers q runId of
                 Some aborted \<Rightarrow> (True, q\<lparr>controllers := (controllers q)(runId \<mapsto> True)\<rparr>)
               | None \<Rightarrow> (False, q))"

text \<open>
  One step of the system around the queue: a call of one of its methods, the completion
  of an executor, or any other write to the store (the executor recording the result of
  its loop, a request handler creating a run).
\<close>

datatype queue_op =
    Enqueue string | Pause string | Resume string | Stop string | Tick
  | Settle RunRecord outcome | External "Store \<Rightarrow> Store"

fun apply_op :: "RunQueue \<Rightarrow> queue_op \<Rightarrow> RunQueue" where
  "apply_op q (Enqueue r) = enqueue r q"
| "apply_op q (Pause r) = snd (pause r q)"
| "apply_op q (Resume r) = snd (resume r q)"
| "apply_op q (Stop r) = snd (stop r q)"
| "apply_op q Tick = tick q"
| "apply_op q (Settle run out) = execute_settle run out q"
| "apply_op q (External f) = q\<lparr>store := f (store q)\<rparr>"

definition run_ops :: "RunQueue \<Rightarrow> queue_op list \<Rightarrow> RunQueue" where
  "run_ops q ops = foldl apply_op q ops"

text \<open>The runs for which a \<open>run.started\<close> event is in a journal, in journal order, and the
  test \<open>execute\<close> makes on a popped run.\<close>

definition started_runs :: "EventRecord list \<Rightarrow> string option list" where
  "started_runs evs = map event_runId (filter (\<lambda>e. event_type e = run_started) evs)"

definition still_queued :: "Store \<Rightarrow> string \<Rightarrow> bool" where
  "still_queued st r = (case getRun st r of None \<Rightarrow> False | Some run \<Rightarrow> status run = Queued)"

text \<open>The running set after the runs \<open>xs\<close> are added to it one by one.\<close>

definition add_all :: "string list \<Rightarrow> string list \<Rightarrow> string list" where
  "add_all rs xs = foldl (\<lambda>acc r. set_add r acc) rs xs"

text \<open>
  What first-in-first-out starting means for a \<open>tick\<close> that leads from \<open>q\<close> to \<open>q'\<close> and
  pops \<open>k\<close> runs. The popped runs are the first \<open>k\<close> of \<open>pending\<close> in insertion order and
  the rest stays pending in order. Of the popped runs exactly those whose persisted
  status is \<open>queued\<close> are started: they get a \<open>run.started\<close> event each, in that order,
  and join the running set; the row of any other run is left as it was. Each run was
  popped while the running set was below the capacity, and the popping ended only
  because \<open>pending\<close> was used up, the running set was no longer below the capacity, or
  the next id was the empty string.
\<close>

definition starts_fifo :: "RunQueue \<Rightarrow> RunQueue \<Rightarrow> nat \<Rightarrow> bool" where
  "starts_fifo q q' k =
     (k \<le> length (pending q)
      \<and> pending q' = drop k (pending q)
      \<and> started_runs (journal (store q'))
          = started_runs (journal (store q))
            @ map Some (filter (still_queued (store q)) (take k (pending q)))
      \<and> running q' = add_all (running q) (filter (still_queued (store q)) (take k (pending q)))
      \<and> (\<forall>x. x \<notin> set (filter (still_queued (store q)) (take k (pending q)))
             \<longrightarrow> getRun (store q') x = getRun (store q) x)
      \<and> (\<forall>j<k. size_below
                    (length (add_all (running q)
                               (filter (still_queued (store q)) (take j (pending q)))))
                    (maxConcurrent q)
                  \<and> pending q ! j \<noteq> [])
      \<and> (k < length (pending q)
           \<longrightarrow> \<not> size_below (length (running q')) (maxConcurrent q) \<or> pending q ! k = []))"

text \<open>The invariant of the queue for a capacity \<open>c\<close>: a running set that is not empty got
  its last element while it was below the capacity.\<close>

definition queue_inv :: "js_number \<Rightarrow> RunQueue \<Rightarrow> bool" where
  "queue_inv c q =
     (maxConcurrent q = c
      \<and> (running q = [] \<or> size_below (length (running q) - 1) c)
      \<and> distinct (pending q))"
section \<open>The worktree manager\<close>

text \<open>The characters kept by \<open>replace(/[^a-z0-9]/gi, "")\<close> (without the \<open>u\<close> flag the
  case-insensitive match never leaves ASCII), and \<open>toLowerCase\<close> on them.\<close>

definition is_alnum :: "char \<Rightarrow> bool" where
  "is_alnum c =
     (let n = (of_char c :: nat)
      in (48 \<le> n \<and> n \<le> 57) \<or> (65 \<le> n \<and> n \<le> 90) \<or> (97 \<le> n \<and> n \<le> 122))"

definition to_lower :: "char \<Rightarrow> char" where
  "to_lower c =
     (let n = (of_char c :: nat) in if 65 \<le> n \<and> n \<le> 90 then char_of (n + 32) else c)"

text \<open>
  \<open>path.resolve\<close> on a POSIX system with working directory \<open>cwd\<close>: the arguments are
  joined from the right until an absolute one is met, then the path is normalised
  (empty and \<open>.\<close> segments dropped, \<open>..\<close> removing the segment before it).
\<close>

fun split_on :: "char \<Rightarrow> string \<Rightarrow> string list" where
  "split_on d [] = [[]]"
| "split_on d (c # cs) =
     (if c = d then [] # split_on d cs
      else (case split_on d cs of [] \<Rightarrow> [[c]] | x # xs \<Rightarrow> (c # x) # xs))"

fun pop_dots :: "string list \<Rightarrow> string list \<Rightarrow> string list" where
  "pop_dots acc [] = rev acc"
| "pop_dots acc (x # xs) = (if x = ''..'' then pop_dots (tl acc) xs else pop_dots (x # acc) xs)"

definition is_absolute :: "string \<Rightarrow> bool" where
  "is_absolute s = (case s of [] \<Rightarrow> False | c # _ \<Rightarrow> c = CHR ''/'')"

definition normalize_path :: "string \<Rightarrow> string" where
  "normalize_path s =
     CHR ''/'' # join ''/'' (pop_dots [] (filter (\<lambda>x. x \<noteq> [] \<and> x \<noteq> ''.'') (split_on CHR ''/'' s)))"

definition resolve :: "string \<Rightarrow> string list \<Rightarrow> string" where
  "resolve cwd args =
     (let joined = foldr (\<lambda>a acc. if is_absolute acc \<or> a = [] then acc else a @ ''/'' @ acc) args []
      in normalize_path (if is_absolute joined then joined else cwd @ ''/'' @ joined))"

text \<open>A thrown \<open>Error\<close> with its message.\<close>

datatype js_error = Error string

record WorktreeSetupResult =
  repoRoot :: string
  wt_worktreePath :: string
  wt_branchName :: string

text \<open>
  What \<open>createThreadWorktree\<close> reads from its surroundings: the result of the \<open>k\<close>-th
  \<open>git\<close> process it spawns (given the working directory and the arguments), the value of
  the \<open>k\<close>-th call of \<open>Date.now()\<close>, whether \<open>mkdir\<close> fails (and with which message), and
  the working directory of the process.
\<close>

record WorktreeEnv =
  git_run :: "nat \<Rightarrow> string \<Rightarrow> string list \<Rightarrow> SpawnResult"
  wt_now :: "nat \<Rightarrow> nat"
  mkdir_error :: "string option"
  process_cwd :: string

definition resolveRepoRoot :: "WorktreeEnv \<Rightarrow> string \<Rightarrow> js_error + string" where
  "resolveRepoRoot env repoPath =
     (let result = git_run env 0 repoPath [''rev-parse'', ''--show-toplevel'']
      in if exitCode result \<noteq> 0 \<or> trim (stdout result) = []
         then Inl (Error (''Path is not inside a git repository: '' @ repoPath))
         else Inr (resolve (process_cwd env) [trim (stdout result)]))"

definition shortId_of :: "string \<Rightarrow> string" where
  "shortId_of threadId = map to_lower (take 10 (filter is_alnum threadId))"

definition worktree_add_args :: "string \<Rightarrow> string \<Rightarrow> string list" where
  "worktree_add_args branch path = [''worktree'', ''add'', ''-b'', branch, path]"

text \<open>The result of \<open>createThreadWorktree\<close> (the record, or the error thrown) together with
  the \<open>git\<close> processes it spawned, each with its working directory and arguments, in
  order.\<close>

definition createThreadWorktree ::
  "WorktreeEnv \<Rightarrow> string \<Rightarrow> string \<Rightarrow> (js_error + WorktreeSetupResult) \<times> (string \<times> string list) list" where
  "createThreadWorktree env repoPath threadId =
     (let call0 = (repoPath, [''rev-parse'', ''--show-toplevel''])
      in case resolveRepoRoot env repoPath of
           Inl e \<Rightarrow> (Inl e, [call0])
         | Inr rootDir \<Rightarrow>
             (let worktreeRoot = resolve (process_cwd env) [rootDir, ''.ralph'', ''worktrees''];
                  shortId = shortId_of threadId;
                  name = (if shortId \<noteq> [] then shortId else ''thread'');
                  worktreePath = resolve (process_cwd env) [worktreeRoot, name]
              in case mkdir_error env of
                   Some msg \<Rightarrow> (Inl (Error msg), [call0])
                 | None \<Rightarrow>
                     (let reads = (if shortId \<noteq> [] then 0 else 1);
                          branchName = ''ralph/thread-''
                            @ (if shortId \<noteq> [] then shortId else string_of_nat (wt_now env 0));
                          call1 = (rootDir, worktree_add_args branchName worktreePath);
                          addResult = git_run env 1 rootDir (snd call1)
                      in if exitCode addResult = 0
                         then (Inr \<lparr> repoRoot = rootDir, wt_worktreePath = worktreePath,
                                     wt_branchName = branchName \<rparr>, [call0, call1])
                         else
                           (let branchName2 = branchName @ ''-'' @ string_of_nat (wt_now env reads);
                                worktreePath2 = resolve (process_cwd env)
                                  [worktreeRoot, name @ ''-'' @ string_of_nat (wt_now env (Suc reads))];
                                call2 = (rootDir, worktree_add_args branchName2 worktreePath2);
                                addResult2 = git_run env 2 rootDir (snd call2)
                            in if exitCode addResult2 \<noteq> 0
                               then (Inl (Error (''Failed to create thread worktree: ''
                                        @ (if stderr addResult2 \<noteq> [] then stderr addResult2
                                           else if stdout addResult2 \<noteq> [] then stdout addResult2
                                           else ''unknown git error''))), [call0, call1, call2])
                               else (Inr \<lparr> repoRoot = rootDir, wt_worktreePath = worktreePath2,
                                           wt_branchName = branchName2 \<rparr>, [call0, call1, call2])))))"

text \<open>Notions used to reason about paths: a segment that \<open>path.resolve\<close> keeps as it
  is, the string of an absolute path with given segments, and the characters of a short
  identifier.\<close>

definition plain :: "string \<Rightarrow> bool" where
  "plain x = (x \<noteq> [] \<and> x \<noteq> ''.'' \<and> x \<noteq> ''..'' \<and> CHR ''/'' \<notin> set x)"

definition render_path :: "string list \<Rightarrow> string" where
  "render_path xs = CHR ''/'' # join ''/'' xs"

definition lower_alnum :: "char \<Rightarrow> bool" where
  "lower_alnum c =
     (let n = (of_char c :: nat) in (48 \<le> n \<and> n \<le> 57) \<or> (97 \<le> n \<and> n \<le> 122))"

section \<open>The prompt builder\<close>

text \<open>Characters that cannot be written inside a string literal here: the apostrophe,
  and the em dash of the templates, which stands as its three UTF-8 bytes.\<close>

definition squote :: string where
  "squote = [CHR 0x27]"

definition em_dash :: string where
  "em_dash = [CHR 0xE2, CHR 0x80, CHR 0x94]"

record ProgressData =
  progress_content :: string
  progress_exists :: bool

record ResolvedTask =
  rt_id :: string
  rt_name :: string
  rt_description :: string
  rt_validate :: "string list"
  rt_maxIterations :: nat
  rt_dependsOn :: "string list"
  acceptanceCriteria :: "string list"
  rt_skip :: bool
  rt_index :: nat
  rt_total :: nat

record PromptContext =
  ctx_task :: string
  ctx_iteration :: nat
  ctx_maxIterations :: nat
  ctx_progress :: ProgressData
  validationCommands :: "string list"
  completionPromise :: string
  ctx_progressFile :: string
  ctx_lastFailureOutput :: "string option"
  ctx_wasReverted :: "bool option"
  ctx_prdTask :: "ResolvedTask option"
  ctx_prdName :: "string option"
  ctx_prdDescription :: "string option"
  ctx_completedTasks :: "(string \<times> string) list option"

text \<open>\<open>xs.map((x, i) => f(i + 1, x))\<close>.\<close>

definition numbered :: "(nat \<Rightarrow> string \<Rightarrow> string) \<Rightarrow> string list \<Rightarrow> string list" where
  "numbered f xs = map (\<lambda>(i, x). f (i + 1) x) (enumerate 0 xs)"

definition projectLine :: "PromptContext \<Rightarrow> string" where
  "projectLine ctx =
     ''## Project: '' @ (case ctx_prdName ctx of Some n \<Rightarrow> n | None \<Rightarrow> ''Unnamed PRD'')"

definition positionLine :: "ResolvedTask \<Rightarrow> string" where
  "positionLine t =
     ''**You are working on task '' @ string_of_nat (rt_index t) @ '' of ''
       @ string_of_nat (rt_total t) @ '': '' @ dquote @ rt_name t @ dquote
       @ ''** (id: `'' @ rt_id t @ ''`)''"

definition prdHeaderLines :: "PromptContext \<Rightarrow> ResolvedTask \<Rightarrow> string list" where
  "prdHeaderLines ctx t =
     [projectLine ctx]
     @ (case ctx_prdDescription ctx of
          Some d \<Rightarrow> if d \<noteq> [] then [d] else []
        | None \<Rightarrow> [])
     @ [[], positionLine t]
     @ (case ctx_completedTasks ctx of
          Some cs \<Rightarrow>
            if cs \<noteq> []
            then [[], ''### Previously Completed Tasks'']
                 @ map (\<lambda>(i, n). ''- [x] `'' @ i @ ''`: '' @ n) cs
            else []
        | None \<Rightarrow> [])
     @ (if rt_index t < rt_total t
        then [[], ''*'' @ string_of_nat (rt_total t - rt_index t)
                    @ '' task(s) remaining after this one. Focus only on the current task.*'']
        else [])"

definition buildPrdHeader :: "PromptContext \<Rightarrow> ResolvedTask \<Rightarrow> string" where
  "buildPrdHeader ctx t = join nl (prdHeaderLines ctx t)"

definition taskSection :: "PromptContext \<Rightarrow> string" where
  "taskSection ctx = ''## Your Task'' @ nl @ ctx_task ctx"

definition criteriaSection :: "ResolvedTask \<Rightarrow> string" where
  "criteriaSection t =
     ''## Acceptance Criteria'' @ nl
       @ join nl (numbered (\<lambda>i c. string_of_nat i @ ''. '' @ c) (acceptanceCriteria t))"

definition iterationLine :: "PromptContext \<Rightarrow> string" where
  "iterationLine ctx =
     ''- You are iteration **'' @ string_of_nat (ctx_iteration ctx) @ ''** of **''
       @ string_of_nat (ctx_maxIterations ctx) @ ''** in an automated Ralph Loop.''"

definition commandLines :: "PromptContext \<Rightarrow> string" where
  "commandLines ctx =
     join nl (numbered (\<lambda>i cmd. ''  '' @ string_of_nat i @ ''. `'' @ cmd @ ''`'') (validationCommands ctx))"

text \<open>A template literal that spans several lines is the join of its lines.\<close>

definition rulesLines :: "PromptContext \<Rightarrow> string list" where
  "rulesLines ctx =
     [''## Rules'',
      iterationLine ctx,
      ''- Previous iterations may have made partial progress on the codebase.'',
      ''- Read `'' @ ctx_progressFile ctx @ ''` FIRST to understand what has been done so far.'',
      ''- Before you finish, UPDATE `'' @ ctx_progressFile ctx @ ''` with:'',
      ''  - What you accomplished this iteration'',
      ''  - What still remains to be done'',
      ''  - Any blockers or issues encountered'',
      ''- You MUST make ALL of the following validation commands pass:'',
      commandLines ctx,
      ''- Run validation commands yourself to verify your work before declaring completion.'',
      ''- Do NOT modify test files to make tests pass '' @ em_dash @ '' fix the actual source code.'',
      ''- Make small, incremental changes. Do not rewrite large sections of code unnecessarily.'']"

definition rulesSection :: "PromptContext \<Rightarrow> string" where
  "rulesSection ctx = join nl (rulesLines ctx)"

definition progressSection :: "PromptContext \<Rightarrow> string" where
  "progressSection ctx =
     (if progress_exists (ctx_progress ctx) \<and> trim (progress_content (ctx_progress ctx)) \<noteq> []
      then ''## Current Progress (from '' @ ctx_progressFile ctx @ '')'' @ nl
             @ progress_content (ctx_progress ctx)
      else ''## Current Progress'' @ nl
             @ ''This is the first iteration. No previous progress exists. Start from scratch.'')"

definition revertWarning :: string where
  "revertWarning =
     join nl
       [''## WARNING: Previous Iteration Was Reverted'',
        ''Your previous iteration'' @ squote @ ''s changes were reverted because they caused a **regression** ''
          @ em_dash @ '' more tests/validations failed than before. The codebase has been reset to the state before that iteration. Take a different approach this time.'']"

definition failureSection :: "string \<Rightarrow> string" where
  "failureSection out = ''## Previous Iteration Validation Results'' @ nl @ out"

definition completionLines :: "PromptContext \<Rightarrow> string list" where
  "completionLines ctx =
     [''## Completion'',
      ''When ALL validation commands pass and the task is **fully complete**, output this EXACT string as the **last line** of your response:'',
      [],
      ''    '' @ completionPromise ctx,
      [],
      ''**Do NOT output this string unless you are 100% certain all validations pass.**'',
      ''**Do NOT output a similar string or a partial match.**'',
      ''If you cannot complete the task in this iteration, describe what'' @ squote
        @ ''s blocking you in `'' @ ctx_progressFile ctx @ ''` and exit normally.'']"

definition completionSection :: "PromptContext \<Rightarrow> string" where
  "completionSection ctx = join nl (completionLines ctx)"

text \<open>The sections pushed by \<open>buildPrompt\<close>, in the order of the pushes.\<close>

definition promptSections :: "PromptContext \<Rightarrow> string list" where
  "promptSections ctx =
     (case ctx_prdTask ctx of Some t \<Rightarrow> [buildPrdHeader ctx t] | None \<Rightarrow> [])
     @ [taskSection ctx]
     @ (case ctx_prdTask ctx of
          Some t \<Rightarrow> if acceptanceCriteria t \<noteq> [] then [criteriaSection t] else []
        | None \<Rightarrow> [])
     @ [rulesSection ctx, progressSection ctx]
     @ (if ctx_wasReverted ctx = Some True then [revertWarning] else [])
     @ (case ctx_lastFailureOutput ctx of
          Some out \<Rightarrow> if out \<noteq> [] then [failureSection out] else []
        | None \<Rightarrow> [])
     @ [completionSection ctx]"

definition buildPrompt :: "PromptContext \<Rightarrow> string" where
  "buildPrompt ctx = join (nl @ nl) (promptSections ctx)"

text \<open>
  A list of strings occurs in order in a text when the text can be cut into the first
  string with something before it, and a rest in which the remaining strings occur in
  order.
\<close>

fun occurs_in_order :: "string list \<Rightarrow> string \<Rightarrow> bool" where
  "occurs_in_order [] s = True"
| "occurs_in_order (x # xs) s = (\<exists>pre post. s = pre @ x @ post \<and> occurs_in_order xs post)"

text \<open>
  The parts of a prompt that the specification names, written out over the fields of
  the context, in the order in which \<open>buildPrompt\<close> emits them: the project line and the
  position line of the PRD header; the task under its heading; the heading and the
  numbered items of the acceptance criteria; the heading of the rules, the words naming
  iteration \<open>i\<close> of \<open>N\<close>, the progress file name in backticks and the numbered validation
  commands; the progress section; the heading and the two halves of the sentence of the
  revert warning; the prior-failure block; the heading of the completion instruction
  and the line with the completion secret.
\<close>

definition promptParts :: "PromptContext \<Rightarrow> string list" where
  "promptParts ctx =
     (case ctx_prdTask ctx of
        Some t \<Rightarrow>
          [''## Project: '' @ (case ctx_prdName ctx of Some n \<Rightarrow> n | None \<Rightarrow> ''Unnamed PRD''),
           ''**You are working on task '' @ string_of_nat (rt_index t) @ '' of ''
             @ string_of_nat (rt_total t) @ '': '' @ [CHR 0x22] @ rt_name t @ [CHR 0x22]
             @ ''** (id: `'' @ rt_id t @ ''`)'']
      | None \<Rightarrow> [])
     @ [''## Your Task'' @ [CHR 0x0A] @ ctx_task ctx]
     @ (case ctx_prdTask ctx of
          Some t \<Rightarrow>
            if acceptanceCriteria t \<noteq> []
            then ''## Acceptance Criteria''
                 # map (\<lambda>k. string_of_nat (Suc k) @ ''. '' @ acceptanceCriteria t ! k)
                     [0..<length (acceptanceCriteria t)]
            else []
        | None \<Rightarrow> [])
     @ [''## Rules'',
        ''- You are iteration **'' @ string_of_nat (ctx_iteration ctx) @ ''** of **''
          @ string_of_nat (ctx_maxIterations ctx) @ ''**'',
        ''`'' @ ctx_progressFile ctx @ ''`'']
     @ map (\<lambda>k. ''  '' @ string_of_nat (Suc k) @ ''. `'' @ validationCommands ctx ! k @ ''`'')
         [0..<length (validationCommands ctx)]
     @ [if progress_exists (ctx_progress ctx) \<and> trim (progress_content (ctx_progress ctx)) \<noteq> []
        then ''## Current Progress (from '' @ ctx_progressFile ctx @ '')'' @ [CHR 0x0A]
               @ progress_content (ctx_progress ctx)
        else ''## Current Progress'' @ [CHR 0x0A]
               @ ''This is the first iteration. No previous progress exists. Start from scratch.'']
     @ (if ctx_wasReverted ctx = Some True
        then [''## WARNING: Previous Iteration Was Reverted'',
              ''Your previous iteration'' @ [CHR 0x27]
                @ ''s changes were reverted because they caused a **regression** '',
              '' more tests/validations failed than before. The codebase has been reset to the state before that iteration. Take a different approach this time.'']
        else [])
     @ (case ctx_lastFailureOutput ctx of
          Some out \<Rightarrow>
            if out \<noteq> [] then [''## Previous Iteration Validation Results'' @ [CHR 0x0A] @ out] else []
        | None \<Rightarrow> [])
     @ [''## Completion'', ''    '' @ completionPromise ctx]"

section \<open>The iteration loop\<close>

text \<open>\<open>detectPromise\<close> is \<open>output.includes(promise)\<close>.\<close>

definition detectPromise :: "string \<Rightarrow> string \<Rightarrow> bool" where
  "detectPromise output promise = js_includes output promise"

record RunTaskOptions =
  opt_task :: string
  opt_validate :: "string list"
  opt_maxIterations :: nat
  opt_progressFile :: string
  failureContextMaxChars :: int
  gitCheckpoint :: bool
  dryRun :: bool
  opt_delay :: nat
  opt_prdTask :: "ResolvedTask option"
  opt_prdName :: "string option"
  opt_prdDescription :: "string option"
  opt_completedTasks :: "(string \<times> string) list option"

record LoopResult =
  success :: bool
  loop_iterations :: nat
  taskId :: "string option"
  cancelled :: "bool option"

text \<open>
  What one call of \<open>runTaskLoop\<close> reads from its surroundings: the completion secret that
  \<open>generatePromise\<close> draws, the progress file as \<open>readProgress\<close> finds it before the loop
  (index 0) and at the start of iteration \<open>i\<close>, the command line the resolved adapter
  builds for a prompt, the result of the agent process of iteration \<open>i\<close> for that prompt,
  the result of the \<open>k\<close>-th validation command of the baseline run (round 0) and of the
  run of iteration \<open>i\<close>, and the \<open>aborted\<close> flag of the abort signal as read at the top
  of iteration \<open>i\<close>.
\<close>

record LoopEnv =
  env_promise :: string
  progress_at :: "nat \<Rightarrow> ProgressData"
  build_command :: "string \<Rightarrow> string \<times> string list"
  agent_run :: "nat \<Rightarrow> string \<Rightarrow> SpawnResult"
  shell_run :: "nat \<Rightarrow> nat \<Rightarrow> string \<Rightarrow> SpawnResult"
  aborted_at :: "nat \<Rightarrow> bool"

text \<open>What the loop does to its surroundings, in program order: the events handed to
  \<open>onEvent\<close> and the calls that write to the worktree or wait.\<close>

datatype LoopEffect =
    Emit EventType nat payload
  | InitProgress string
  | HeadSha
  | DryRunLog string "string list"
  | CommitAll string
  | RevertToLastCommit
  | Sleep nat

record LoopState =
  bestScore :: nat
  lastFailureOutput :: string
  wasReverted :: bool
  effects :: "LoopEffect list"

definition perform :: "LoopEffect list \<Rightarrow> LoopState \<Rightarrow> LoopState" where
  "perform es st = st\<lparr>effects := effects st @ es\<rparr>"

definition completeMessage :: "RunTaskOptions \<Rightarrow> nat \<Rightarrow> string" where
  "completeMessage opts iteration =
     (case opt_prdTask opts of
        Some t \<Rightarrow> ''ralph: ['' @ rt_id t @ ''] complete (iteration '' @ string_of_nat iteration @ '')''
      | None \<Rightarrow> ''ralph: task complete (iteration '' @ string_of_nat iteration @ '')'')"

definition checkpointMessage :: "RunTaskOptions \<Rightarrow> nat \<Rightarrow> nat \<Rightarrow> nat \<Rightarrow> string" where
  "checkpointMessage opts iteration score n_total =
     (case opt_prdTask opts of
        Some t \<Rightarrow> ''ralph: ['' @ rt_id t @ ''] iteration '' @ string_of_nat iteration @ '' (''
                   @ string_of_nat score @ ''/'' @ string_of_nat n_total @ '' passing)''
      | None \<Rightarrow> ''ralph: iteration '' @ string_of_nat iteration @ '' (''
                   @ string_of_nat score @ ''/'' @ string_of_nat n_total @ '' passing)'')"

definition loopResult :: "RunTaskOptions \<Rightarrow> bool \<Rightarrow> nat \<Rightarrow> bool option \<Rightarrow> LoopResult" where
  "loopResult opts ok n c =
     \<lparr> success = ok, loop_iterations = n, taskId = map_option rt_id (opt_prdTask opts),
       cancelled = c \<rparr>"

text \<open>The prompt of an iteration, the combined output of its agent and its validation
  report.\<close>

definition iterationPrompt :: "LoopEnv \<Rightarrow> RunTaskOptions \<Rightarrow> nat \<Rightarrow> LoopState \<Rightarrow> string" where
  "iterationPrompt env opts iteration st =
     buildPrompt
       \<lparr> ctx_task = opt_task opts, ctx_iteration = iteration,
         ctx_maxIterations = opt_maxIterations opts,
         ctx_progress = progress_at env iteration,
         validationCommands = opt_validate opts,
         completionPromise = env_promise env,
         ctx_progressFile = opt_progressFile opts,
         ctx_lastFailureOutput =
           (if lastFailureOutput st \<noteq> [] then Some (lastFailureOutput st) else None),
         ctx_wasReverted = Some (wasReverted st),
         ctx_prdTask = opt_prdTask opts, ctx_prdName = opt_prdName opts,
         ctx_prdDescription = opt_prdDescription opts,
         ctx_completedTasks = opt_completedTasks opts \<rparr>"

definition agentOutput :: "LoopEnv \<Rightarrow> RunTaskOptions \<Rightarrow> nat \<Rightarrow> LoopState \<Rightarrow> string" where
  "agentOutput env opts iteration st =
     (let result = agent_run env iteration (iterationPrompt env opts iteration st)
      in stdout result @ nl @ stderr result)"

definition validationOf :: "LoopEnv \<Rightarrow> RunTaskOptions \<Rightarrow> nat \<Rightarrow> ValidationReport" where
  "validationOf env opts iteration = runValidations (shell_run env iteration) (opt_validate opts)"

text \<open>Step 8 of the loop body: the regression check and the checkpoint.\<close>

definition regressionHandling ::
  "RunTaskOptions \<Rightarrow> nat \<Rightarrow> ValidationReport \<Rightarrow> LoopState \<Rightarrow> LoopState" where
  "regressionHandling opts iteration validation st =
     (let currentScore = scoreValidation validation;
          failure = formatFailureContext validation (failureContextMaxChars opts)
      in if gitCheckpoint opts then
           if currentScore < bestScore st then
             (perform [RevertToLastCommit, Emit loop_regression_reverted iteration []] st)
               \<lparr> wasReverted := True, lastFailureOutput := failure \<rparr>
           else
             (perform [CommitAll (checkpointMessage opts iteration currentScore (totalCount validation)),
                       Emit loop_checkpoint_committed iteration
                         [(''score'', JNum (int currentScore)),
                          (''total'', JNum (int (totalCount validation)))]] st)
               \<lparr> wasReverted := False,
                 bestScore := (if currentScore > bestScore st then currentScore else bestScore st),
                 lastFailureOutput := failure \<rparr>
         else st\<lparr> wasReverted := False, lastFailureOutput := failure \<rparr>)"

text \<open>The events of an iteration between the start of the agent and the end of the
  validation: \<open>loop.agent.spawned\<close>, \<open>loop.agent.exited\<close> and
  \<open>loop.validation.completed\<close>.\<close>

definition agentEvents :: "LoopEnv \<Rightarrow> RunTaskOptions \<Rightarrow> nat \<Rightarrow> LoopState \<Rightarrow> LoopEffect list" where
  "agentEvents env opts iteration st =
     (let prompt = iterationPrompt env opts iteration st;
          spawnConfig = build_command env prompt;
          result = agent_run env iteration prompt;
          validation = validationOf env opts iteration
      in [Emit loop_agent_spawned iteration
            [(''command'', JStr (fst spawnConfig)),
             (''args'', JList (map JStr (snd spawnConfig)))],
          Emit loop_agent_exited iteration
            [(''exitCode'', JNum (exitCode result)),
             (''duration'', JNum (int (duration result)))],
          Emit loop_validation_completed iteration
            [(''passCount'', JNum (int (passCount validation))),
             (''totalCount'', JNum (int (totalCount validation))),
             (''allPassed'', JBool (allPassed validation))]])"

text \<open>The body of the \<open>for\<close> loop for one value of \<open>iteration\<close>: the result when the body
  returns from \<open>runTaskLoop\<close>, and the state after it.\<close>

definition runIteration ::
  "LoopEnv \<Rightarrow> RunTaskOptions \<Rightarrow> nat \<Rightarrow> LoopState \<Rightarrow> LoopResult option \<times> LoopState" where
  "runIteration env opts iteration st =
     (if aborted_at env iteration
      then (Some (loopResult opts False (iteration - 1) (Some True)), st)
      else
        (let st1 = perform [Emit loop_iteration_started iteration []] st;
             spawnConfig = build_command env (iterationPrompt env opts iteration st)
         in if dryRun opts
            then (Some (loopResult opts True 0 None),
                  perform [DryRunLog (fst spawnConfig) (snd spawnConfig)] st1)
            else
              (let st2 = perform (agentEvents env opts iteration st) st1;
                   claimed = detectPromise (agentOutput env opts iteration st) (env_promise env);
                   validation = validationOf env opts iteration
               in if claimed \<and> allPassed validation
                  then (Some (loopResult opts True iteration None),
                        if gitCheckpoint opts
                        then perform [CommitAll (completeMessage opts iteration)] st2
                        else st2)
                  else
                    (let st3 = regressionHandling opts iteration validation st2
                     in (None,
                         if opt_delay opts > 0 \<and> iteration < opt_maxIterations opts
                         then perform [Sleep (opt_delay opts)] st3
                         else st3)))))"

function iterate ::
  "LoopEnv \<Rightarrow> RunTaskOptions \<Rightarrow> nat \<Rightarrow> LoopState \<Rightarrow> LoopResult \<times> LoopState" where
  "iterate env opts iteration st =
     (if iteration \<le> opt_maxIterations opts then
        (case runIteration env opts iteration st of
           (Some r, st') \<Rightarrow> (r, st')
         | (None, st') \<Rightarrow> iterate env opts (Suc iteration) st')
      else (loopResult opts False (opt_maxIterations opts) None, st))"
  by pat_completeness auto
termination
  by (relation "measure (\<lambda>(env, opts, iteration, st). Suc (opt_maxIterations opts) - iteration)") auto

declare iterate.simps [simp del]

text \<open>The preamble of \<open>runTaskLoop\<close>: the progress file is created when missing, the
  baseline validation gives the first \<open>bestScore\<close>, and with checkpoints the head commit
  is looked up.\<close>

definition initialState :: "LoopEnv \<Rightarrow> RunTaskOptions \<Rightarrow> LoopState" where
  "initialState env opts =
     \<lparr> bestScore = scoreValidation (validationOf env opts 0),
       lastFailureOutput = [], wasReverted = False,
       effects = (if progress_exists (progress_at env 0) then [] else [InitProgress (opt_task opts)])
                 @ (if gitCheckpoint opts then [HeadSha] else []) \<rparr>"

definition runTaskLoop :: "LoopEnv \<Rightarrow> RunTaskOptions \<Rightarrow> LoopResult \<times> LoopState" where
  "runTaskLoop env opts = iterate env opts 1 (initialState env opts)"

text \<open>The states after each iteration that ran to its end, from iteration \<open>iteration\<close> on:
  the same recursion as \<open>iterate\<close>, keeping every intermediate state.\<close>

function statesAfter :: "LoopEnv \<Rightarrow> RunTaskOptions \<Rightarrow> nat \<Rightarrow> LoopState \<Rightarrow> LoopState list" where
  "statesAfter env opts iteration st =
     (if iteration \<le> opt_maxIterations opts then
        (case runIteration env opts iteration st of
           (Some r, st') \<Rightarrow> []
         | (None, st') \<Rightarrow> st' # statesAfter env opts (Suc iteration) st')
      else [])"
  by pat_completeness auto
termination
  by (relation "measure (\<lambda>(env, opts, iteration, st). Suc (opt_maxIterations opts) - iteration)") auto

declare statesAfter.simps [simp del]

text \<open>The completion secret occurs in the combined output of the agent of an iteration.\<close>

definition claimedAt :: "LoopEnv \<Rightarrow> RunTaskOptions \<Rightarrow> nat \<Rightarrow> LoopState \<Rightarrow> bool" where
  "claimedAt env opts i st = (\<exists>pre post. agentOutput env opts i st = pre @ env_promise env @ post)"

section \<open>Creating runs, and the automation scheduler\<close>





definition markAutomationTriggered :: "string \<Rightarrow> Store \<Rightarrow> Store" where
  "markAutomationTriggered i st =
     (let (now, st1) = Date_now st
      in st1\<lparr>automations :=
              map (\<lambda>a. if automation_id a = i then a\<lparr>lastRunAt := Some now\<rparr> else a)
                  (automations st1)\<rparr>)"














definition triggered_automations :: "EventRecord list \<Rightarrow> string list" where
  "triggered_automations evs =
     concat (map (\<lambda>e. if event_type e = automation_triggered
                       then (case map_of (event_payload e) ''automationId'' of
                               Some (JStr i) \<Rightarrow> [i] | _ \<Rightarrow> [])
                       else []) evs)"





section \<open>Sample inputs\<close>

text \<open>A shell in which every command fails with exit code 1 and prints \<open>e\<close> on stderr.\<close>

definition failing_shell :: "nat \<Rightarrow> string \<Rightarrow> SpawnResult" where
  "failing_shell k cmd = \<lparr> stdout = [], stderr = ''e'', exitCode = 1, duration = 0 \<rparr>"

text \<open>A store with one thread and three runs on it: \<open>r1\<close> is running, \<open>r2\<close> and \<open>r3\<close>
  are queued.\<close>

definition sample_thread :: ThreadRecord where
  "sample_thread =
     \<lparr> thread_id = ''t1'', thread_name = ''demo'', thread_task = ''fix the tests'',
       thread_repoPath = ''/repo'', thread_baseRepoPath = ''/repo'',
       thread_worktreePath = None, thread_branchName = None,
       thread_agent = claude, thread_validate = [''bun test''],
       thread_createdAt = 5, thread_updatedAt = 5 \<rparr>"

definition sample_run :: "string \<Rightarrow> RunRecord" where
  "sample_run i =
     \<lparr> run_id = i, run_threadId = ''t1'', status = Queued, run_maxIterations = 10,
       iterations = 0, taskOverride = None, sourceRunId = None, run_error = None,
       run_createdAt = 7, startedAt = None, finishedAt = None \<rparr>"

definition sample_store :: Store where
  "sample_store =
     \<lparr> threads = [sample_thread],
       runs = [(sample_run ''r1'')\<lparr>status := Running, startedAt := Some 8\<rparr>,
               sample_run ''r2'', sample_run ''r3''],
       journal = [], review_comments = [], automations = [],
       clock = (\<lambda>k. 1000 + k), clock_reads = 0,
       uuids = (\<lambda>k. ''run-'' @ string_of_nat k), uuid_draws = 0 \<rparr>"


text \<open>A queue of capacity one over the sample store, with \<open>r1\<close> running and the other two
  runs pending.\<close>

definition sample_queue :: RunQueue where
  "sample_queue =
     \<lparr> store = sample_store, pending = [''r2'', ''r3''], running = [''r1''],
       controllers = [''r1'' \<mapsto> False], maxConcurrent = Num 1 \<rparr>"

text \<open>The sample store before any run was started.\<close>

definition fresh_store :: Store where
  "fresh_store = sample_store\<lparr>runs := [sample_run ''r1'', sample_run ''r2'', sample_run ''r3'']\<rparr>"

text \<open>The three sample runs enqueued one after the other.\<close>

definition sample_ops :: "queue_op list" where
  "sample_ops = [Enqueue ''r1'', Enqueue ''r2'', Enqueue ''r3'']"

text \<open>An environment in which \<open>/srv/app\<close> is a repository: \<open>git rev-parse\<close> prints it, and
  a \<open>git worktree add\<close> succeeds or fails as the first argument says. The clock starts at
  1700000000000.\<close>

definition sample_git :: "bool \<Rightarrow> nat \<Rightarrow> string \<Rightarrow> string list \<Rightarrow> SpawnResult" where
  "sample_git first_ok k cwd args =
     (if k = 0 then \<lparr> stdout = ''/srv/app'' @ nl, stderr = [], exitCode = 0, duration = 3 \<rparr>
      else if k = 1 \<and> \<not> first_ok
        then \<lparr> stdout = [], stderr = ''fatal: a branch of that name already exists'', exitCode = 128, duration = 4 \<rparr>
      else \<lparr> stdout = [], stderr = [], exitCode = 0, duration = 5 \<rparr>)"

definition sample_wt_env :: "bool \<Rightarrow> WorktreeEnv" where
  "sample_wt_env first_ok =
     \<lparr> git_run = sample_git first_ok, wt_now = (\<lambda>k. 1700000000000 + k),
       mkdir_error = None, process_cwd = ''/home/dev'' \<rparr>"

text \<open>The context of the repository's prompt tests, in PRD mode, at iteration 3 of 20
  after a reverted iteration.\<close>

definition sample_task :: ResolvedTask where
  "sample_task =
     \<lparr> rt_id = ''auth'', rt_name = ''Add Authentication'', rt_description = ''Implement JWT auth'',
       rt_validate = [''npm test''], rt_maxIterations = 10, rt_dependsOn = [],
       acceptanceCriteria = [''Login works'', ''Tokens refresh''], rt_skip = False,
       rt_index = 2, rt_total = 5 \<rparr>"

definition sample_ctx :: PromptContext where
  "sample_ctx =
     \<lparr> ctx_task = ''Implement user authentication with JWT'', ctx_iteration = 3,
       ctx_maxIterations = 20,
       ctx_progress = \<lparr> progress_content = [], progress_exists = False \<rparr>,
       validationCommands = [''npm test'', ''tsc --noEmit''],
       completionPromise = ''RALPH_COMPLETE_test1234'', ctx_progressFile = ''ralph-progress.md'',
       ctx_lastFailureOutput = Some ''TypeError: foo is not defined'', ctx_wasReverted = Some True,
       ctx_prdTask = Some sample_task, ctx_prdName = Some ''E-Commerce Platform'',
       ctx_prdDescription = Some ''Building a full e-commerce solution'',
       ctx_completedTasks = Some [(''setup'', ''Initial Setup'')] \<rparr>"

text \<open>
  A run with two validation commands and checkpoints: the baseline passes one command,
  the first iteration passes none (a regression) although its agent prints the
  completion secret, the second iteration passes both commands, and in the third the
  agent prints the secret again while both commands pass.
\<close>

definition sample_opts :: RunTaskOptions where
  "sample_opts =
     \<lparr> opt_task = ''fix the tests'', opt_validate = [''bun test'', ''tsc --noEmit''],
       opt_maxIterations = 3, opt_progressFile = ''ralph-progress.md'',
       failureContextMaxChars = 4000, gitCheckpoint = True, dryRun = False, opt_delay = 0,
       opt_prdTask = None, opt_prdName = None, opt_prdDescription = None,
       opt_completedTasks = None \<rparr>"

definition sample_shell :: "nat \<Rightarrow> nat \<Rightarrow> string \<Rightarrow> SpawnResult" where
  "sample_shell rnd k cmd =
     (if 2 \<le> rnd \<or> (rnd = 0 \<and> k = 0)
      then \<lparr> stdout = ''ok'', stderr = [], exitCode = 0, duration = 10 \<rparr>
      else \<lparr> stdout = [], stderr = ''error TS2304'', exitCode = 2, duration = 10 \<rparr>)"

definition sample_agent :: "nat \<Rightarrow> string \<Rightarrow> SpawnResult" where
  "sample_agent i prompt =
     (if i \<noteq> 2
      then \<lparr> stdout = ''All green.'' @ nl @ ''RALPH_COMPLETE_0a1b2c3d'', stderr = [], exitCode = 0,
             duration = 900 \<rparr>
      else \<lparr> stdout = ''Still working.'', stderr = ''warning'', exitCode = 0, duration = 800 \<rparr>)"

definition sample_env :: LoopEnv where
  "sample_env =
     \<lparr> env_promise = ''RALPH_COMPLETE_0a1b2c3d'',
       progress_at = (\<lambda>i. \<lparr> progress_content = [], progress_exists = False \<rparr>),
       build_command = (\<lambda>prompt. (''claude'', [''-p'', prompt])),
       agent_run = sample_agent, shell_run = sample_shell, aborted_at = (\<lambda>i. False) \<rparr>"



definition sample_automation ::
  "string \<Rightarrow> string \<Rightarrow> string option \<Rightarrow> nat \<Rightarrow> bool \<Rightarrow> nat option \<Rightarrow> AutomationRecord" where
  "sample_automation i cr t n en l =
     \<lparr> automation_id = i, automation_name = i, cron = cr, automation_threadId = t,
       automation_maxIterations = n, enabled = en, lastRunAt = l,
       automation_createdAt = 6, automation_updatedAt = 6 \<rparr>"



section \<open>Properties of the validator\<close>

lemma length_sentinel: "length sentinel = 15"
  by (simp add: sentinel_def nl_def)

lemma runValidations_passCount:
  "passCount (runValidations sh cmds) = length (filter passed (results (runValidations sh cmds)))"
  by (simp add: runValidations_def Let_def)

lemma formatFailureContext_allPassed:
  "allPassed report \<Longrightarrow> formatFailureContext report m = []"
  by (simp add: formatFailureContext_def)

lemma formatFailureContext_short:
  "\<not> allPassed report \<Longrightarrow> int (length (fullText report)) \<le> m \<Longrightarrow>
   formatFailureContext report m = fullText report"
  by (simp add: formatFailureContext_def Let_def)

lemma formatFailureContext_long:
  assumes "\<not> allPassed report" and "m < int (length (fullText report))" and "0 < m"
  shows "formatFailureContext report m =
           sentinel @ drop (length (fullText report) - nat (m - 20)) (fullText report)"
proof -
  let ?full = "fullText report"
  have "nat (int (length ?full) - m + 20) = length ?full - nat (m - 20)
        \<or> (length ?full \<le> nat (int (length ?full) - m + 20)
           \<and> length ?full \<le> length ?full - nat (m - 20))"
    using assms by auto
  then have "drop (nat (int (length ?full) - m + 20)) ?full = drop (length ?full - nat (m - 20)) ?full"
    by auto
  then show ?thesis
    using assms by (simp add: formatFailureContext_def Let_def slice_from_def)
qed

lemma formatFailureContext_length:
  assumes "\<not> allPassed report" and "0 < m"
  shows "int (length (formatFailureContext report m)) \<le> max m 15"
proof (cases "m < int (length (fullText report))")
  case True
  then show ?thesis
    using assms by (simp add: formatFailureContext_long length_sentinel)
next
  case False
  then show ?thesis
    using assms by (simp add: formatFailureContext_short)
qed

lemma failing_report_eval:
  "allPassed (runValidations failing_shell [''t'']) = False"
  "passCount (runValidations failing_shell [''t'']) = 0"
  "length (fullText (runValidations failing_shell [''t''])) = 39"
  by (simp_all add: runValidations_def failing_shell_def mkResult_def fullText_def
      formatSection_def Let_def trim_def is_ws_def nl_def string_of_int_def
      string_of_nat.simps digit_chars_def enumerate_eq_zip)

text \<open>
  Claim C3, as the code has it. For a report that \<open>runValidations\<close> produced the score is
  the number of results whose \<open>passed\<close> flag is set. For every report and every positive
  character budget \<open>m\<close>: an all-pass report formats to the empty string; otherwise the
  formatted text is at most \<open>max m 15\<close> characters long, hence at most \<open>m\<close> as soon as
  \<open>m\<close> is at least the 15 characters of the sentinel; and when the untruncated text is
  longer than \<open>m\<close> the result is the sentinel followed by the last \<open>m - 20\<close> characters of
  the text (none when \<open>m \<le> 20\<close>), while a text of at most \<open>m\<close> characters is returned
  unchanged.
\<close>

theorem validator_score_and_failure_context:
  assumes "0 < m"
  shows "scoreValidation (runValidations sh cmds)
           = length (filter passed (results (runValidations sh cmds)))
       \<and> (allPassed report \<longrightarrow> formatFailureContext report m = [])
       \<and> (\<not> allPassed report \<longrightarrow>
            int (length (formatFailureContext report m)) \<le> max m 15
          \<and> (15 \<le> m \<longrightarrow> int (length (formatFailureContext report m)) \<le> m))
       \<and> (\<not> allPassed report \<and> m < int (length (fullText report)) \<longrightarrow>
            formatFailureContext report m
              = sentinel @ drop (length (fullText report) - nat (m - 20)) (fullText report))
       \<and> (\<not> allPassed report \<and> int (length (fullText report)) \<le> m \<longrightarrow>
            formatFailureContext report m = fullText report)"
proof (intro conjI impI)
  show "scoreValidation (runValidations sh cmds)
          = length (filter passed (results (runValidations sh cmds)))"
    by (simp add: scoreValidation_def runValidations_passCount)
next
  assume "allPassed report"
  then show "formatFailureContext report m = []"
    by (rule formatFailureContext_allPassed)
next
  assume "\<not> allPassed report"
  then show "int (length (formatFailureContext report m)) \<le> max m 15"
    using assms by (rule formatFailureContext_length)
next
  assume "\<not> allPassed report" and "15 \<le> m"
  then show "int (length (formatFailureContext report m)) \<le> m"
    using formatFailureContext_length [of report m] assms by simp
next
  assume "\<not> allPassed report \<and> m < int (length (fullText report))"
  then show "formatFailureContext report m
               = sentinel @ drop (length (fullText report) - nat (m - 20)) (fullText report)"
    using assms by (simp add: formatFailureContext_long)
next
  assume "\<not> allPassed report \<and> int (length (fullText report)) \<le> m"
  then show "formatFailureContext report m = fullText report"
    by (simp add: formatFailureContext_short)
qed

text \<open>The theorem at a budget of 24 characters and the one-command failing report: the
  39 characters of text are cut to the sentinel and the last four characters.\<close>

theorem validator_score_and_failure_context_witness:
  "(0::int) < 24
   \<and> \<not> allPassed (runValidations failing_shell [''t''])
   \<and> 24 < int (length (fullText (runValidations failing_shell [''t''])))
   \<and> scoreValidation (runValidations failing_shell [''t'']) = 0
   \<and> int (length (formatFailureContext (runValidations failing_shell [''t'']) 24)) \<le> 24
   \<and> formatFailureContext (runValidations failing_shell [''t'']) 24
       = sentinel @ drop 35 (fullText (runValidations failing_shell [''t'']))"
proof -
  have pos: "(0::int) < 24" by simp
  note inst = validator_score_and_failure_context
    [OF pos, of failing_shell "[''t'']" "runValidations failing_shell [''t'']"]
  have score: "scoreValidation (runValidations failing_shell [''t'']) = 0"
    by (simp add: scoreValidation_def failing_report_eval)
  from inst show ?thesis
    by (simp add: failing_report_eval score length_sentinel)
qed

text \<open>Claim C3 as stated fails for a budget below the length of the sentinel: with a
  budget of 10 characters the failing report formats to the 15 characters of the
  sentinel alone.\<close>

theorem failure_context_exceeds_small_budget:
  "\<not> int (length (formatFailureContext (runValidations failing_shell [''t'']) 10)) \<le> 10"
  by (simp add: formatFailureContext_def failing_report_eval slice_from_def length_sentinel)

section \<open>Properties of the store\<close>

lemma find_map_same:
  assumes "\<And>row. run_id (f row) = run_id row"
  shows "find (\<lambda>r. run_id r = i) (map (\<lambda>row. if run_id row = i then f row else row) rs)
         = map_option f (find (\<lambda>r. run_id r = i) rs)"
  by (induction rs) (simp_all add: assms)

lemma find_map_other:
  assumes "\<And>row. run_id (f row) = run_id row" and "j \<noteq> i"
  shows "find (\<lambda>r. run_id r = j) (map (\<lambda>row. if run_id row = i then f row else row) rs)
         = find (\<lambda>r. run_id r = j) rs"
  by (induction rs) (simp_all add: assms)

lemma run_id_updatedRun [simp]: "run_id (updatedRun s u run row) = run_id row"
  by (simp add: updatedRun_def)

lemma runs_touchThread [simp]: "runs (touchThread t st) = runs st"
  by (simp add: touchThread_def Date_now_def)

lemma journal_touchThread [simp]: "journal (touchThread t st) = journal st"
  by (simp add: touchThread_def Date_now_def)

lemma getRun_touchThread [simp]: "getRun (touchThread t st) i = getRun st i"
  by (simp add: getRun_def)

lemma updateRunStatus_missing:
  "getRun st runId = None \<Longrightarrow> updateRunStatus runId s u st = st"
  by (simp add: updateRunStatus_def)

lemma updateRunStatus_found:
  "getRun st runId = Some run \<Longrightarrow>
   getRun (updateRunStatus runId s u st) runId = Some (updatedRun s u run run)"
  by (simp add: updateRunStatus_def) (simp add: getRun_def find_map_same)

lemma updateRunStatus_other:
  "other \<noteq> runId \<Longrightarrow> getRun (updateRunStatus runId s u st) other = getRun st other"
  by (simp add: updateRunStatus_def split: option.splits) (simp add: getRun_def find_map_other)

lemma journal_updateRunStatus [simp]: "journal (updateRunStatus runId s u st) = journal st"
  by (simp add: updateRunStatus_def split: option.splits)

text \<open>
  Claim C10. \<open>updateRunStatus\<close> on a missing run returns the store unchanged (no row is
  written and the clock is not read). On an existing run it sets the status, replaces
  each of \<open>iterations\<close>, \<open>error\<close>, \<open>startedAt\<close> and \<open>finishedAt\<close> by the supplied value when
  the field of \<open>updates\<close> is present and leaves it at its previous value when the field is
  absent, leaves every other column of the run alone, and touches no other run.
\<close>

theorem updateRunStatus_frame:
  "(getRun st runId = None \<longrightarrow> updateRunStatus runId s u st = st)
   \<and> (\<forall>run. getRun st runId = Some run \<longrightarrow>
        (\<exists>run'. getRun (updateRunStatus runId s u st) runId = Some run'
           \<and> status run' = s
           \<and> iterations run' = (case u_iterations u of None \<Rightarrow> iterations run | Some n \<Rightarrow> n)
           \<and> run_error run' = (case u_error u of None \<Rightarrow> run_error run | Some e \<Rightarrow> Some e)
           \<and> startedAt run' = (case u_startedAt u of None \<Rightarrow> startedAt run | Some t \<Rightarrow> Some t)
           \<and> finishedAt run' = (case u_finishedAt u of None \<Rightarrow> finishedAt run | Some t \<Rightarrow> Some t)
           \<and> run_id run' = run_id run \<and> run_threadId run' = run_threadId run
           \<and> run_maxIterations run' = run_maxIterations run
           \<and> taskOverride run' = taskOverride run \<and> sourceRunId run' = sourceRunId run
           \<and> run_createdAt run' = run_createdAt run))
   \<and> (\<forall>other. other \<noteq> runId \<longrightarrow>
         getRun (updateRunStatus runId s u st) other = getRun st other)"
proof (intro conjI allI impI)
  assume "getRun st runId = None"
  then show "updateRunStatus runId s u st = st" by (rule updateRunStatus_missing)
next
  fix run assume "getRun st runId = Some run"
  from updateRunStatus_found [OF this, of s u]
  show "\<exists>run'. getRun (updateRunStatus runId s u st) runId = Some run'
           \<and> status run' = s
           \<and> iterations run' = (case u_iterations u of None \<Rightarrow> iterations run | Some n \<Rightarrow> n)
           \<and> run_error run' = (case u_error u of None \<Rightarrow> run_error run | Some e \<Rightarrow> Some e)
           \<and> startedAt run' = (case u_startedAt u of None \<Rightarrow> startedAt run | Some t \<Rightarrow> Some t)
           \<and> finishedAt run' = (case u_finishedAt u of None \<Rightarrow> finishedAt run | Some t \<Rightarrow> Some t)
           \<and> run_id run' = run_id run \<and> run_threadId run' = run_threadId run
           \<and> run_maxIterations run' = run_maxIterations run
           \<and> taskOverride run' = taskOverride run \<and> sourceRunId run' = sourceRunId run
           \<and> run_createdAt run' = run_createdAt run"
    by (simp add: updatedRun_def nullish_def split: option.splits)
next
  fix other assume "other \<noteq> runId"
  then show "getRun (updateRunStatus runId s u st) other = getRun st other"
    by (rule updateRunStatus_other)
qed

lemma sample_getRun:
  "getRun sample_store ''r1'' = Some ((sample_run ''r1'')\<lparr>status := Running, startedAt := Some 8\<rparr>)"
  "getRun sample_store ''r2'' = Some (sample_run ''r2'')"
  "getRun sample_store ''r3'' = Some (sample_run ''r3'')"
  "getRun sample_store ''zz'' = None"
  by (simp_all add: getRun_def sample_store_def sample_run_def)

text \<open>The theorem on the sample store, for a missing run and for run \<open>r2\<close> started at
  time 9.\<close>

theorem updateRunStatus_frame_witness:
  "getRun sample_store ''zz'' = None
   \<and> updateRunStatus ''zz'' Running no_updates sample_store = sample_store
   \<and> getRun sample_store ''r2'' = Some (sample_run ''r2'')
   \<and> ''r3'' \<noteq> ''r2''
   \<and> getRun (updateRunStatus ''r2'' Running (no_updates\<lparr>u_startedAt := Some 9\<rparr>) sample_store) ''r3''
       = getRun sample_store ''r3''
   \<and> (\<exists>run'. getRun (updateRunStatus ''r2'' Running (no_updates\<lparr>u_startedAt := Some 9\<rparr>) sample_store) ''r2''
                = Some run'
         \<and> status run' = Running \<and> startedAt run' = Some 9 \<and> iterations run' = 0
         \<and> run_error run' = None \<and> finishedAt run' = None)"
  using updateRunStatus_frame [of sample_store "''zz''" Running no_updates]
    updateRunStatus_frame [of sample_store "''r2''" Running "no_updates\<lparr>u_startedAt := Some 9\<rparr>"]
  apply (simp add: sample_getRun)
  apply (simp add: no_updates_def sample_run_def)
  apply blast
  done

section \<open>Properties of the run queue\<close>

lemma updatedRun_no_updates: "updatedRun s no_updates run run = run\<lparr>status := s\<rparr>"
  by (simp add: updatedRun_def no_updates_def nullish_def)

lemma journal_emitEvent:
  "journal (emitEvent t r ty pl st) =
     journal st @ [\<lparr> event_id = Suc (length (journal st)), event_threadId = t, event_runId = r,
                     event_type = ty, event_payload = pl,
                     event_createdAt = clock st (clock_reads st) \<rparr>]"
  by (simp add: emitEvent_def appendEvent_def Date_now_def Let_def)

lemma getRun_emitEvent [simp]: "getRun (emitEvent t r ty pl st) i = getRun st i"
  by (simp add: emitEvent_def appendEvent_def Date_now_def getRun_def Let_def)

lemma clock_updateRunStatus [simp]: "clock (updateRunStatus runId s u st) = clock st"
  by (simp add: updateRunStatus_def touchThread_def Date_now_def split: option.splits)

lemma clock_reads_updateRunStatus_found:
  "getRun st runId = Some run \<Longrightarrow> clock_reads (updateRunStatus runId s u st) = Suc (clock_reads st)"
  by (simp add: updateRunStatus_def touchThread_def Date_now_def split: option.splits)

text \<open>
  Claim C6. \<open>pause r\<close> returns true exactly when \<open>r\<close> is in \<open>pending\<close> and its row exists,
  so only when \<open>r\<close> is pending. When it returns true it has removed \<open>r\<close> from \<open>pending\<close>,
  set the persisted status of \<open>r\<close> to \<open>paused\<close> leaving its other columns and all other
  runs alone, and appended one \<open>run.paused\<close> event for \<open>r\<close>; \<open>running\<close> and the controllers
  are as before. When it returns false the queue and the store are unchanged, so no
  event was emitted.
\<close>

theorem pause_semantics:
  "fst (pause r q) = (r \<in> set (pending q) \<and> getRun (store q) r \<noteq> None)
   \<and> (fst (pause r q) \<longrightarrow>
        r \<in> set (pending q)
      \<and> pending (snd (pause r q)) = removeAll r (pending q)
      \<and> r \<notin> set (pending (snd (pause r q)))
      \<and> running (snd (pause r q)) = running q
      \<and> controllers (snd (pause r q)) = controllers q
      \<and> (\<exists>run. getRun (store q) r = Some run
            \<and> getRun (store (snd (pause r q))) r = Some (run\<lparr>status := Paused\<rparr>)
            \<and> (\<exists>ev. journal (store (snd (pause r q))) = journal (store q) @ [ev]
                  \<and> event_type ev = run_paused \<and> event_runId ev = Some r
                  \<and> event_threadId ev = run_threadId run))
      \<and> (\<forall>other. other \<noteq> r \<longrightarrow> getRun (store (snd (pause r q))) other = getRun (store q) other))
   \<and> (\<not> fst (pause r q) \<longrightarrow> snd (pause r q) = q)"
proof (cases "r \<in> set (pending q)")
  case False
  then show ?thesis by (simp add: pause_def)
next
  case inp: True
  show ?thesis
  proof (cases "getRun (store q) r")
    case None
    then show ?thesis using inp by (simp add: pause_def)
  next
    case (Some run)
    have rid: "run_id run = r"
      using Some by (auto simp: getRun_def dest: find_Some_iff [THEN iffD1])
    show ?thesis
      using inp Some rid
      by (simp add: pause_def Let_def set_delete_def updateRunStatus_found updateRunStatus_other
          updatedRun_no_updates journal_emitEvent)
  qed
qed


lemma sample_queue_eval:
  "pending sample_queue = [''r2'', ''r3'']"
  "store sample_queue = sample_store"
  by (simp_all add: sample_queue_def)

text \<open>The theorem on the sample queue: the pending run \<open>r2\<close> is paused, the running run
  \<open>r1\<close> is not.\<close>

theorem pause_semantics_witness:
  "fst (pause ''r2'' sample_queue)
   \<and> ''r2'' \<in> set (pending sample_queue)
   \<and> pending (snd (pause ''r2'' sample_queue)) = [''r3'']
   \<and> getRun (store (snd (pause ''r2'' sample_queue))) ''r2'' = Some ((sample_run ''r2'')\<lparr>status := Paused\<rparr>)
   \<and> \<not> fst (pause ''r1'' sample_queue)
   \<and> snd (pause ''r1'' sample_queue) = sample_queue"
  using pause_semantics [of "''r2''" sample_queue] pause_semantics [of "''r1''" sample_queue]
  by (simp add: sample_queue_eval sample_getRun)

lemma getRun_run_id: "getRun st r = Some run \<Longrightarrow> run_id run = r"
  by (auto simp: getRun_def find_Some_iff)

lemma length_set_add: "length (set_add x xs) \<le> Suc (length xs)"
  by (simp add: set_add_def)

lemma distinct_set_add: "distinct xs \<Longrightarrow> distinct (set_add x xs)"
  by (simp add: set_add_def)

lemma distinct_set_delete: "distinct xs \<Longrightarrow> distinct (set_delete x xs)"
  by (simp add: set_delete_def distinct_removeAll)

lemma length_set_delete: "length (set_delete x xs) \<le> length xs"
  by (simp add: set_delete_def)

lemma size_below_mono: "size_below k c \<Longrightarrow> j \<le> k \<Longrightarrow> size_below j c"
  by (cases c) (simp_all add: size_below_def)

lemma size_below_nat: "size_below k (Num (real n)) = (k < n)"
  by (simp add: size_below_def)

lemma maxConcurrent_execute [simp]: "maxConcurrent (execute r q) = maxConcurrent q"
  by (simp add: execute_def Let_def split: option.splits prod.splits)

lemma execute_not_queued: "\<not> still_queued (store q) r \<Longrightarrow> execute r q = q"
  by (simp add: execute_def still_queued_def split: option.splits)

lemma running_execute_eq:
  "running (execute r q) = (if still_queued (store q) r then set_add r (running q) else running q)"
  by (simp add: execute_def still_queued_def Let_def split: option.splits prod.splits)

lemma running_execute: "length (running (execute r q)) \<le> Suc (length (running q))"
  by (simp add: running_execute_eq length_set_add)

lemma cap_step:
  assumes "size_below (length rs) c" and "length rs' \<le> Suc (length rs)"
  shows "rs' = [] \<or> size_below (length rs' - 1) c"
proof -
  have "length rs' - 1 \<le> length rs" using assms(2) by simp
  then show ?thesis using assms(1) size_below_mono by blast
qed

lemma tick_cap:
  "running q = [] \<or> size_below (length (running q) - 1) (maxConcurrent q) \<Longrightarrow>
   (running (tick q) = [] \<or> size_below (length (running (tick q)) - 1) (maxConcurrent q))
   \<and> maxConcurrent (tick q) = maxConcurrent q"
proof (induction q rule: tick.induct)
  case (1 q)
  show ?case
  proof (cases "size_below (length (running q)) (maxConcurrent q) \<and> pending q \<noteq> []
                \<and> hd (pending q) \<noteq> []")
    case False
    then have "tick q = q" by (auto simp: tick.simps [of q] Let_def)
    then show ?thesis using "1.prems" by simp
  next
    case True
    let ?r = "hd (pending q)"
    let ?q2 = "execute ?r (q\<lparr>pending := set_delete ?r (pending q)\<rparr>)"
    have t: "tick q = tick ?q2" using True by (simp add: tick.simps [of q] Let_def)
    have "length (running ?q2) \<le> Suc (length (running q))"
      using running_execute [of ?r "q\<lparr>pending := set_delete ?r (pending q)\<rparr>"] by simp
    with True have "running ?q2 = [] \<or> size_below (length (running ?q2) - 1) (maxConcurrent q)"
      by (intro cap_step [of "running q"]) simp_all
    then have "running ?q2 = [] \<or> size_below (length (running ?q2) - 1) (maxConcurrent ?q2)"
      by simp
    from "1.IH" [OF _ refl _ this] True
    show ?thesis by (simp add: t)
  qed
qed

lemma distinct_pending_tick: "distinct (pending q) \<Longrightarrow> distinct (pending (tick q))"
proof (induction q rule: tick.induct)
  case (1 q)
  show ?case
  proof (cases "size_below (length (running q)) (maxConcurrent q) \<and> pending q \<noteq> []
                \<and> hd (pending q) \<noteq> []")
    case False
    then have "tick q = q" by (auto simp: tick.simps [of q] Let_def)
    then show ?thesis using "1.prems" by simp
  next
    case True
    let ?r = "hd (pending q)"
    let ?q2 = "execute ?r (q\<lparr>pending := set_delete ?r (pending q)\<rparr>)"
    have t: "tick q = tick ?q2" using True by (simp add: tick.simps [of q] Let_def)
    have "distinct (pending ?q2)" using "1.prems" by (simp add: distinct_set_delete)
    from "1.IH" [OF _ refl _ this] True
    show ?thesis by (simp add: t)
  qed
qed

lemma queue_inv_tick: "queue_inv c q \<Longrightarrow> queue_inv c (tick q)"
  using tick_cap [of q] distinct_pending_tick [of q] by (simp add: queue_inv_def)

lemma queue_inv_cleanup: "queue_inv c q \<Longrightarrow> queue_inv c (execute_cleanup run out q)"
proof -
  assume a: "queue_inv c q"
  have "running q = [] \<or> size_below (length (running q) - 1) c" using a by (simp add: queue_inv_def)
  moreover have "length (set_delete x (running q)) - 1 \<le> length (running q) - 1" for x
    using length_set_delete [of x "running q"] by simp
  ultimately have "set_delete x (running q) = [] \<or> size_below (length (set_delete x (running q)) - 1) c" for x
    using size_below_mono by (auto simp add: set_delete_def)
  then show ?thesis using a by (simp add: execute_cleanup_def queue_inv_def Let_def)
qed

lemma queue_inv_apply_op: "queue_inv c q \<Longrightarrow> queue_inv c (apply_op q op)"
proof (cases op)
  case (Enqueue r)
  assume "queue_inv c q"
  then have "queue_inv c (q\<lparr>pending := set_add r (pending q)\<rparr>)"
    by (simp add: queue_inv_def distinct_set_add)
  then show ?thesis using Enqueue by (simp add: enqueue_def queue_inv_tick)
next
  case (Pause r)
  assume "queue_inv c q"
  then show ?thesis using Pause
    by (simp add: pause_def queue_inv_def distinct_set_delete Let_def split: option.splits)
next
  case (Resume r)
  assume a: "queue_inv c q"
  have "queue_inv c (q\<lparr>store := st, pending := set_add r (pending q)\<rparr>)" for st
    using a by (simp add: queue_inv_def distinct_set_add)
  then show ?thesis using Resume a
    by (simp add: resume_def enqueue_def Let_def queue_inv_tick split: option.splits)
next
  case (Stop r)
  assume "queue_inv c q"
  then show ?thesis using Stop
    by (simp add: stop_def queue_inv_def distinct_set_delete Let_def split: option.splits prod.splits)
next
  case Tick
  assume "queue_inv c q"
  then show ?thesis using Tick by (simp add: queue_inv_tick)
next
  case (Settle run out)
  assume "queue_inv c q"
  then show ?thesis using Settle
    by (simp add: execute_settle_def queue_inv_tick queue_inv_cleanup)
next
  case (External f)
  assume "queue_inv c q"
  then show ?thesis using External by (simp add: queue_inv_def)
qed

lemma queue_inv_run_ops: "queue_inv c q \<Longrightarrow> queue_inv c (run_ops q ops)"
  unfolding run_ops_def
  by (induction ops arbitrary: q) (simp_all add: queue_inv_apply_op)

lemma queue_inv_new: "queue_inv c (new_queue st c)"
  by (simp add: queue_inv_def new_queue_def)

lemma started_runs_append [simp]: "started_runs (xs @ ys) = started_runs xs @ started_runs ys"
  by (simp add: started_runs_def)

lemma journal_Date_now [simp]: "journal (snd (Date_now st)) = journal st"
  by (simp add: Date_now_def)

lemma getRun_Date_now [simp]: "getRun (snd (Date_now st)) i = getRun st i"
  by (simp add: Date_now_def getRun_def)

lemma started_emitEvent:
  "started_runs (journal (emitEvent t r ty pl st))
     = started_runs (journal st) @ (if ty = run_started then [r] else [])"
  by (simp add: emitEvent_def appendEvent_def Date_now_def Let_def started_runs_def)

lemma started_executeRun_begin [simp]:
  "started_runs (journal (executeRun_begin run st)) = started_runs (journal st)"
  by (simp add: executeRun_begin_def started_emitEvent Let_def split: option.splits prod.splits)
     (metis journal_Date_now snd_conv)

lemma getRun_executeRun_begin:
  "x \<noteq> run_id run \<Longrightarrow> getRun (executeRun_begin run st) x = getRun st x"
  by (simp add: executeRun_begin_def Let_def updateRunStatus_other split: option.splits prod.splits)
     (metis getRun_Date_now snd_conv)

lemma started_execute:
  "started_runs (journal (store (execute r q)))
     = started_runs (journal (store q)) @ (if still_queued (store q) r then [Some r] else [])"
proof (cases "getRun (store q) r")
  case None
  then show ?thesis by (simp add: execute_def still_queued_def)
next
  case (Some run)
  then have "run_id run = r" by (rule getRun_run_id)
  then show ?thesis using Some
    by (simp add: execute_def still_queued_def Let_def started_emitEvent split: prod.splits)
       (metis journal_Date_now snd_conv)
qed

lemma getRun_execute_other:
  assumes "x \<noteq> r"
  shows "getRun (store (execute r q)) x = getRun (store q) x"
proof (cases "getRun (store q) r")
  case None
  then show ?thesis by (simp add: execute_def)
next
  case (Some run)
  then have "run_id run = r" by (rule getRun_run_id)
  then show ?thesis
    using Some assms
    by (simp add: execute_def Let_def getRun_executeRun_begin updateRunStatus_other split: prod.splits)
       (metis getRun_Date_now snd_conv)
qed

lemma still_queued_execute:
  "x \<noteq> r \<Longrightarrow> still_queued (store (execute r q)) x = still_queued (store q) x"
  by (simp add: still_queued_def getRun_execute_other)

lemma add_all_Cons [simp]: "add_all rs (x # xs) = add_all (set_add x rs) xs"
  by (simp add: add_all_def)

lemma add_all_Nil [simp]: "add_all rs [] = rs"
  by (simp add: add_all_def)

lemma starts_fifo_none:
  assumes "\<not> (size_below (length (running q)) (maxConcurrent q) \<and> pending q \<noteq> []
              \<and> hd (pending q) \<noteq> [])"
  shows "starts_fifo q q 0"
proof -
  have "pending q \<noteq> [] \<Longrightarrow> hd (pending q) = pending q ! 0" by (simp add: hd_conv_nth)
  then show ?thesis using assms by (auto simp add: starts_fifo_def)
qed

lemma starts_fifo_step:
  assumes guard: "size_below (length (running q)) (maxConcurrent q)"
    and pq: "pending q = r # rest" and ne: "r \<noteq> []" and nin: "r \<notin> set rest"
    and ih: "starts_fifo (execute r (q\<lparr>pending := rest\<rparr>)) q' k"
  shows "starts_fifo q q' (Suc k)"
proof -
  let ?q1 = "q\<lparr>pending := rest\<rparr>"
  let ?q2 = "execute r ?q1"
  let ?sq = "still_queued (store q)"
  let ?hd = "if ?sq r then [r] else []"
  have p2: "pending ?q2 = rest" by simp
  have m2: "maxConcurrent ?q2 = maxConcurrent q" by simp
  have r2: "running ?q2 = add_all (running q) ?hd"
    by (simp add: running_execute_eq)
  have same: "filter (still_queued (store ?q2)) (take j rest) = filter ?sq (take j rest)" for j
  proof (rule filter_cong [OF refl])
    fix x assume "x \<in> set (take j rest)"
    then have "x \<in> set rest" by (rule in_set_takeD)
    then have "x \<noteq> r" using nin by auto
    then show "still_queued (store ?q2) x = ?sq x"
      using still_queued_execute [of x r ?q1] by simp
  qed
  have popped: "filter ?sq (take (Suc j) (pending q)) = ?hd @ filter ?sq (take j rest)" for j
    by (simp add: pq)
  have add: "add_all (running q) (filter ?sq (take (Suc j) (pending q)))
             = add_all (running ?q2) (filter ?sq (take j rest))" for j
    by (simp add: pq running_execute_eq)
  have st2: "started_runs (journal (store ?q2)) = started_runs (journal (store q)) @ map Some ?hd"
    using started_execute [of r ?q1] by simp
  from ih have
    1: "k \<le> length rest" and
    2: "pending q' = drop k rest" and
    3: "started_runs (journal (store q'))
          = started_runs (journal (store ?q2)) @ map Some (filter ?sq (take k rest))" and
    4: "running q' = add_all (running ?q2) (filter ?sq (take k rest))" and
    5: "\<forall>x. x \<notin> set (filter ?sq (take k rest)) \<longrightarrow> getRun (store q') x = getRun (store ?q2) x" and
    6: "\<forall>j<k. size_below (length (add_all (running ?q2) (filter ?sq (take j rest)))) (maxConcurrent q)
               \<and> rest ! j \<noteq> []" and
    7: "k < length rest \<longrightarrow> \<not> size_below (length (running q')) (maxConcurrent q) \<or> rest ! k = []"
    unfolding starts_fifo_def p2 m2 same by blast+
  have a: "Suc k \<le> length (pending q)" using 1 by (simp add: pq)
  have b: "pending q' = drop (Suc k) (pending q)" using 2 by (simp add: pq)
  have c: "started_runs (journal (store q'))
          = started_runs (journal (store q)) @ map Some (filter ?sq (take (Suc k) (pending q)))"
    unfolding 3 st2 popped by simp
  have d: "running q' = add_all (running q) (filter ?sq (take (Suc k) (pending q)))"
    unfolding add by (rule 4)
  have e: "getRun (store q') x = getRun (store q) x"
    if x: "x \<notin> set (filter ?sq (take (Suc k) (pending q)))" for x
  proof -
    from x have x1: "x \<notin> set (filter ?sq (take k rest))" and x2: "?sq r \<longrightarrow> x \<noteq> r"
      unfolding popped by auto
    have "getRun (store ?q2) x = getRun (store q) x"
    proof (cases "?sq r")
      case True
      then have "x \<noteq> r" using x2 by simp
      then show ?thesis using getRun_execute_other [of x r ?q1] by simp
    next
      case False
      then have "execute r ?q1 = ?q1" by (intro execute_not_queued) simp
      then show ?thesis by simp
    qed
    with 5 x1 show ?thesis by simp
  qed
  have f: "size_below (length (add_all (running q) (filter ?sq (take j (pending q))))) (maxConcurrent q)
           \<and> pending q ! j \<noteq> []" if "j < Suc k" for j
  proof (cases j)
    case 0
    then show ?thesis using guard ne by (simp add: pq)
  next
    case (Suc i)
    then have "i < k" using that by simp
    with 6 have "size_below (length (add_all (running ?q2) (filter ?sq (take i rest)))) (maxConcurrent q)
               \<and> rest ! i \<noteq> []" by blast
    then show ?thesis unfolding Suc add by (simp add: pq)
  qed
  have g: "Suc k < length (pending q)
           \<longrightarrow> \<not> size_below (length (running q')) (maxConcurrent q) \<or> pending q ! Suc k = []"
    using 7 by (simp add: pq)
  show ?thesis
    unfolding starts_fifo_def using a b c d e f g by blast
qed

lemma tick_fifo: "distinct (pending q) \<Longrightarrow> \<exists>k. starts_fifo q (tick q) k"
proof (induction q rule: tick.induct)
  case (1 q)
  show ?case
  proof (cases "size_below (length (running q)) (maxConcurrent q) \<and> pending q \<noteq> []
                \<and> hd (pending q) \<noteq> []")
    case False
    then have "tick q = q" by (auto simp: tick.simps [of q] Let_def)
    then show ?thesis using starts_fifo_none [OF False] by auto
  next
    case True
    then obtain r rest where pq: "pending q = r # rest" by (cases "pending q") auto
    let ?q1 = "q\<lparr>pending := set_delete r (pending q)\<rparr>"
    let ?q2 = "execute r ?q1"
    have nin: "r \<notin> set rest" and drest: "distinct rest" using "1.prems" pq by auto
    have q1: "?q1 = q\<lparr>pending := rest\<rparr>" using nin by (simp add: pq set_delete_def)
    have t: "tick q = tick ?q2" using True by (simp add: tick.simps [of q] Let_def pq)
    have d2: "distinct (pending ?q2)" using drest q1 by simp
    have c: "size_below (length (running q)) (maxConcurrent q) \<and> pending q \<noteq> []" using True by simp
    have h: "r = hd (pending q)" by (simp add: pq)
    have ne: "r \<noteq> []" using True by (simp add: pq)
    from "1.IH" [OF c h ne d2] obtain k where "starts_fifo ?q2 (tick ?q2) k" by blast
    then have "starts_fifo (execute r (q\<lparr>pending := rest\<rparr>)) (tick q) k"
      unfolding t q1 .
    from starts_fifo_step [OF _ pq ne nin this] c
    show ?thesis by blast
  qed
qed

text \<open>
  Claim C5, as the code has it. In every state reached from a new queue of capacity \<open>c\<close>
  by any sequence of \<open>enqueue\<close>, \<open>pause\<close>, \<open>resume\<close>, \<open>stop\<close>, \<open>tick\<close>, executor completions
  (returning or throwing) and other writes to the store, the capacity is still \<open>c\<close> and
  the running set is empty or has fewer than \<open>c + 1\<close> elements; when \<open>c\<close> is a natural
  number the running set has at most \<open>c\<close> elements. The runs started in an \<open>enqueue\<close> or an
  executor completion in such a state, and by a \<open>tick\<close> in any state of the queue, are
  started first-in-first-out: the tick pops the first \<open>k\<close> pending ids in insertion order
  and starts, in that order, exactly those whose persisted status is \<open>queued\<close>; every
  pop happened below the capacity, and the tick stopped only when \<open>pending\<close> was used up,
  the running set was no longer below the capacity, or the next id was empty.
\<close>

theorem queue_cap_and_fifo:
  "maxConcurrent (run_ops (new_queue st c) ops) = c
   \<and> (running (run_ops (new_queue st c) ops) = []
        \<or> size_below (length (running (run_ops (new_queue st c) ops)) - 1) c)
   \<and> (\<forall>n. c = Num (real n) \<longrightarrow> length (running (run_ops (new_queue st c) ops)) \<le> n)
   \<and> (\<exists>k. starts_fifo
             ((run_ops (new_queue st c) ops)
                \<lparr>pending := set_add r (pending (run_ops (new_queue st c) ops))\<rparr>)
             (apply_op (run_ops (new_queue st c) ops) (Enqueue r)) k)
   \<and> (\<exists>k. starts_fifo
             (execute_cleanup run out (run_ops (new_queue st c) ops))
             (apply_op (run_ops (new_queue st c) ops) (Settle run out)) k)
   \<and> (distinct (pending q) \<longrightarrow> (\<exists>k. starts_fifo q (tick q) k))"
proof -
  let ?q = "run_ops (new_queue st c) ops"
  have inv: "queue_inv c ?q"
    by (rule queue_inv_run_ops [OF queue_inv_new])
  then have d: "distinct (pending ?q)" and m: "maxConcurrent ?q = c"
    and cap: "running ?q = [] \<or> size_below (length (running ?q) - 1) c"
    by (simp_all add: queue_inv_def)
  have "length (running ?q) \<le> n" if "c = Num (real n)" for n
    using cap that by (cases "running ?q") (auto simp add: size_below_nat)
  then have nat_cap: "\<forall>n. c = Num (real n) \<longrightarrow> length (running ?q) \<le> n" by blast
  have "distinct (pending (?q\<lparr>pending := set_add r (pending ?q)\<rparr>))"
    using d by (simp add: distinct_set_add)
  from tick_fifo [OF this]
  have enq: "\<exists>k. starts_fifo (?q\<lparr>pending := set_add r (pending ?q)\<rparr>) (apply_op ?q (Enqueue r)) k"
    by (simp add: enqueue_def)
  have "distinct (pending (execute_cleanup run out ?q))"
    using queue_inv_cleanup [OF inv] by (simp add: queue_inv_def)
  from tick_fifo [OF this]
  have settle: "\<exists>k. starts_fifo (execute_cleanup run out ?q) (apply_op ?q (Settle run out)) k"
    by (simp add: execute_settle_def)
  have any: "distinct (pending q) \<longrightarrow> (\<exists>k. starts_fifo q (tick q) k)"
    using tick_fifo by blast
  show ?thesis
    using m cap nat_cap enq settle any by (intro conjI)
qed

lemma sample_ops_eval:
  "running (run_ops (new_queue fresh_store (Num 1)) sample_ops) = [''r1'']"
  "pending (run_ops (new_queue fresh_store (Num 1)) sample_ops) = [''r2'', ''r3'']"
  "running (execute_cleanup (sample_run ''r1'') Returned
              (run_ops (new_queue fresh_store (Num 1)) sample_ops)) = []"
  "pending (execute_cleanup (sample_run ''r1'') Returned
              (run_ops (new_queue fresh_store (Num 1)) sample_ops)) = [''r2'', ''r3'']"
  "maxConcurrent (execute_cleanup (sample_run ''r1'') Returned
              (run_ops (new_queue fresh_store (Num 1)) sample_ops)) = Num 1"
  "still_queued (store (execute_cleanup (sample_run ''r1'') Returned
              (run_ops (new_queue fresh_store (Num 1)) sample_ops))) ''r2''"
  "still_queued (store (execute_cleanup (sample_run ''r1'') Returned
              (run_ops (new_queue fresh_store (Num 1)) sample_ops))) ''r3''"
  "started_runs (journal (store (execute_cleanup (sample_run ''r1'') Returned
              (run_ops (new_queue fresh_store (Num 1)) sample_ops)))) = [Some ''r1'']"
  by code_simp+

text \<open>The theorem on a queue of capacity one after three runs are enqueued: the first is
  running and the other two wait in order; when the executor of the first returns, the
  tick pops exactly one run, the second is started and the third still waits.\<close>

theorem queue_cap_and_fifo_witness:
  "Num 1 = Num (real 1)
   \<and> length (running (run_ops (new_queue fresh_store (Num 1)) sample_ops)) \<le> 1
   \<and> pending (run_ops (new_queue fresh_store (Num 1)) sample_ops) = [''r2'', ''r3'']
   \<and> pending (apply_op (run_ops (new_queue fresh_store (Num 1)) sample_ops)
                (Settle (sample_run ''r1'') Returned)) = [''r3'']
   \<and> running (apply_op (run_ops (new_queue fresh_store (Num 1)) sample_ops)
                (Settle (sample_run ''r1'') Returned)) = [''r2'']
   \<and> started_runs (journal (store (apply_op (run_ops (new_queue fresh_store (Num 1)) sample_ops)
                (Settle (sample_run ''r1'') Returned)))) = [Some ''r1'', Some ''r2'']"
proof -
  let ?q = "run_ops (new_queue fresh_store (Num 1)) sample_ops"
  let ?pre = "execute_cleanup (sample_run ''r1'') Returned ?q"
  let ?post = "apply_op ?q (Settle (sample_run ''r1'') Returned)"
  note inst = queue_cap_and_fifo [of fresh_store "Num 1" sample_ops "''r4''"
      "sample_run ''r1''" Returned ?q]
  have one: "Num 1 = Num (real 1)" by simp
  from inst one have cap: "length (running ?q) \<le> 1" by blast
  from inst obtain k where k: "starts_fifo ?pre ?post k" by blast
  have k2: "k \<le> 2" using k by (simp add: starts_fifo_def sample_ops_eval)
  have "k \<noteq> 0"
  proof
    assume "k = 0"
    with k show False
      by (auto simp add: starts_fifo_def sample_ops_eval size_below_def)
  qed
  moreover have "k \<noteq> 2"
  proof
    assume "k = 2"
    with k have a: "\<And>j. j < 2 \<Longrightarrow> size_below (length (add_all []
        (filter (still_queued (store ?pre)) (take j [''r2'', ''r3''])))) (Num 1)"
      by (simp add: starts_fifo_def sample_ops_eval)
    have "size_below (length (add_all []
        (filter (still_queued (store ?pre)) (take (Suc 0) [''r2'', ''r3''])))) (Num 1)"
      by (rule a) simp
    then show False
      by (simp add: sample_ops_eval size_below_def set_add_def)
  qed
  ultimately have "k = 1" using k2 by arith
  with k have k1: "starts_fifo ?pre ?post (Suc 0)" by simp
  then have "pending ?post = drop (Suc 0) (pending ?pre)"
    and "started_runs (journal (store ?post))
          = started_runs (journal (store ?pre))
            @ map Some (filter (still_queued (store ?pre)) (take (Suc 0) (pending ?pre)))"
    and "running ?post
          = add_all (running ?pre) (filter (still_queued (store ?pre)) (take (Suc 0) (pending ?pre)))"
    unfolding starts_fifo_def by blast+
  then have "pending ?post = [''r3'']" and "running ?post = [''r2'']"
      and "started_runs (journal (store ?post)) = [Some ''r1'', Some ''r2'']"
    by (simp_all add: sample_ops_eval set_add_def)
  with cap show ?thesis by (simp add: sample_ops_eval)
qed

text \<open>Claim C5 as stated bounds the running set by \<open>maxConcurrent\<close> for every queue. With
  the capacity 1.5, which the daemon passes on when \<open>RALPHD_CONCURRENCY\<close> is set to it, two
  enqueued runs are both running.\<close>

theorem queue_exceeds_fractional_capacity:
  "maxConcurrent (run_ops (new_queue fresh_store (Num (3 / 2))) [Enqueue ''r1'', Enqueue ''r2''])
     = Num (3 / 2)
   \<and> running (run_ops (new_queue fresh_store (Num (3 / 2))) [Enqueue ''r1'', Enqueue ''r2''])
     = [''r1'', ''r2'']
   \<and> \<not> real (length (running (run_ops (new_queue fresh_store (Num (3 / 2)))
                                 [Enqueue ''r1'', Enqueue ''r2'']))) \<le> 3 / 2"
proof -
  have "maxConcurrent (run_ops (new_queue fresh_store (Num (3 / 2))) [Enqueue ''r1'', Enqueue ''r2''])
     = Num (3 / 2)"
    "running (run_ops (new_queue fresh_store (Num (3 / 2))) [Enqueue ''r1'', Enqueue ''r2''])
     = [''r1'', ''r2'']"
    by code_simp+
  then show ?thesis by simp
qed

section \<open>Properties of the worktree manager\<close>

lemma split_on_notin: "d \<notin> set x \<Longrightarrow> split_on d x = [x]"
  by (induction x) auto

lemma split_on_nonempty [simp]: "split_on d x \<noteq> []"
  by (induction x) (auto split: list.splits)

lemma split_on_append: "split_on d (x @ d # y) = split_on d x @ split_on d y"
proof (induction x)
  case Nil
  then show ?case by simp
next
  case (Cons c x)
  then show ?case by (cases "split_on d x") auto
qed

lemma split_on_no_delim: "s \<in> set (split_on d x) \<Longrightarrow> d \<notin> set s"
proof (induction x arbitrary: s)
  case Nil
  then show ?case by simp
next
  case (Cons c x)
  then show ?case by (cases "split_on d x") (auto split: if_splits)
qed

lemma pop_dots_set: "set (pop_dots acc xs) \<subseteq> set acc \<union> (set xs - {''..''})"
proof (induction acc xs rule: pop_dots.induct)
  case (1 acc)
  then show ?case by simp
next
  case (2 acc x xs)
  have "set (tl acc) \<subseteq> set acc" by (cases acc) auto
  with 2 show ?case by (auto split: if_splits)
qed

lemma pop_dots_plain: "list_all plain xs \<Longrightarrow> pop_dots acc xs = rev acc @ xs"
  by (induction acc xs rule: pop_dots.induct) (auto simp: plain_def)

lemma split_join_plain:
  "list_all plain xs \<Longrightarrow> xs \<noteq> [] \<Longrightarrow> split_on CHR ''/'' (join ''/'' xs) = xs"
proof (induction "''/''" xs rule: join.induct)
  case 1
  then show ?case by simp
next
  case (2 x)
  then show ?case by (simp add: plain_def split_on_notin)
next
  case (3 x y ys)
  have "split_on CHR ''/'' (x @ CHR ''/'' # join ''/'' (y # ys)) = split_on CHR ''/'' x @ split_on CHR ''/'' (join ''/'' (y # ys))"
    by (rule split_on_append)
  with 3 show ?case by (simp add: plain_def split_on_notin)
qed

lemma plain_filter: "list_all plain xs \<Longrightarrow> filter (\<lambda>x. x \<noteq> [] \<and> x \<noteq> ''.'') xs = xs"
  by (induction xs) (auto simp: plain_def)

lemma segs_render_tail:
  assumes "list_all plain xs"
  shows "filter (\<lambda>x. x \<noteq> [] \<and> x \<noteq> ''.'') (split_on CHR ''/'' (render_path xs @ CHR ''/'' # t))
         = xs @ filter (\<lambda>x. x \<noteq> [] \<and> x \<noteq> ''.'') (split_on CHR ''/'' t)"
proof (cases "xs = []")
  case True
  then show ?thesis by (simp add: render_path_def)
next
  case False
  have "split_on CHR ''/'' (render_path xs @ CHR ''/'' # t)
        = [] # split_on CHR ''/'' (join ''/'' xs @ CHR ''/'' # t)"
    by (simp add: render_path_def)
  also have "\<dots> = [] # xs @ split_on CHR ''/'' t"
    using assms False by (simp add: split_on_append split_join_plain)
  finally show ?thesis using assms by (simp add: plain_filter)
qed

lemma normalize_render_tail:
  assumes "list_all plain xs" and "list_all plain ys"
    and "filter (\<lambda>x. x \<noteq> [] \<and> x \<noteq> ''.'') (split_on CHR ''/'' t) = ys"
  shows "normalize_path (render_path xs @ CHR ''/'' # t) = render_path (xs @ ys)"
proof -
  have "list_all plain (xs @ ys)" using assms by simp
  then have "pop_dots [] (xs @ ys) = xs @ ys" by (simp add: pop_dots_plain)
  then show ?thesis
    using assms by (simp add: normalize_path_def segs_render_tail) (simp add: render_path_def)
qed

lemma normalize_is_render:
  "\<exists>xs. list_all plain xs \<and> normalize_path s = render_path xs"
proof -
  let ?segs = "filter (\<lambda>x. x \<noteq> [] \<and> x \<noteq> ''.'') (split_on CHR ''/'' s)"
  have "plain x" if "x \<in> set (pop_dots [] ?segs)" for x
  proof -
    from that pop_dots_set [of "[]" ?segs] have x: "x \<in> set ?segs" and nd: "x \<noteq> ''..''" by auto
    from x have "x \<in> set (split_on CHR ''/'' s)" and "x \<noteq> []" and "x \<noteq> ''.''" by auto
    with nd split_on_no_delim [of x "CHR ''/''" s] show ?thesis by (simp add: plain_def)
  qed
  then have "list_all plain (pop_dots [] ?segs)" by (simp add: list_all_iff)
  then show ?thesis by (auto simp: normalize_path_def render_path_def)
qed

lemma render_path_absolute [simp]: "is_absolute (render_path xs)"
  by (simp add: is_absolute_def render_path_def)

lemma is_absolute_Nil [simp]: "\<not> is_absolute []"
  by (simp add: is_absolute_def)

lemma render_path_append_absolute [simp]: "is_absolute (render_path xs @ t)"
  by (simp add: is_absolute_def render_path_def)

lemma render_path_nonempty [simp]: "render_path xs \<noteq> []"
  by (simp add: render_path_def)

lemma plain_not_absolute: "plain a \<Longrightarrow> \<not> is_absolute (a @ t)"
  by (cases a) (auto simp: is_absolute_def plain_def)

lemma resolve_child:
  assumes "list_all plain xs" and "plain a"
  shows "resolve cwd [render_path xs, a] = render_path (xs @ [a])"
proof -
  have seg: "filter (\<lambda>x. x \<noteq> [] \<and> x \<noteq> ''.'') (split_on CHR ''/'' (a @ ''/'')) = [a]"
    using assms(2) split_on_append [of "CHR ''/''" a "[]"] by (simp add: plain_def split_on_notin)
  have "resolve cwd [render_path xs, a] = normalize_path (render_path xs @ CHR ''/'' # (a @ ''/''))"
    using assms(2) plain_not_absolute [of a "''/''"] by (simp add: resolve_def Let_def plain_def)
  also have "\<dots> = render_path (xs @ [a])"
    using assms seg by (intro normalize_render_tail) simp_all
  finally show ?thesis .
qed

lemma resolve_grandchild:
  assumes "list_all plain xs" and "plain a" and "plain b"
  shows "resolve cwd [render_path xs, a, b] = render_path (xs @ [a, b])"
proof -
  have seg: "filter (\<lambda>x. x \<noteq> [] \<and> x \<noteq> ''.'') (split_on CHR ''/'' (a @ ''/'' @ b @ ''/'')) = [a, b]"
    using assms(2,3) split_on_append [of "CHR ''/''" a "b @ ''/''"] split_on_append [of "CHR ''/''" b "[]"]
    by (simp add: plain_def split_on_notin)
  have "resolve cwd [render_path xs, a, b] = normalize_path (render_path xs @ CHR ''/'' # (a @ ''/'' @ b @ ''/''))"
    using assms(2,3) plain_not_absolute [of b "''/''"] plain_not_absolute [of a "''/'' @ b @ ''/''"]
    by (simp add: resolve_def Let_def plain_def)
  also have "\<dots> = render_path (xs @ [a, b])"
    using assms seg by (intro normalize_render_tail) simp_all
  finally show ?thesis .
qed

lemma join_snoc: "xs \<noteq> [] \<Longrightarrow> join sep (xs @ [y]) = join sep xs @ sep @ y"
  by (induction sep xs rule: join.induct) auto

lemma render_path_snoc:
  "render_path (xs @ [a]) = (if xs = [] then [] else render_path xs) @ ''/'' @ a"
  by (simp add: render_path_def join_snoc)

lemma render_path_root: "list_all plain xs \<Longrightarrow> (render_path xs = ''/'') = (xs = [])"
proof (cases xs)
  case Nil
  then show ?thesis by (simp add: render_path_def)
next
  case (Cons x ys)
  assume "list_all plain xs"
  then have "x \<noteq> []" using Cons by (simp add: plain_def)
  then have "join ''/'' (x # ys) \<noteq> []" by (cases ys) auto
  then show ?thesis using Cons by (simp add: render_path_def)
qed

lemma lower_alnum_to_lower: "is_alnum c \<Longrightarrow> lower_alnum (to_lower c)"
  by (auto simp: is_alnum_def to_lower_def lower_alnum_def Let_def)

lemma shortId_lower_alnum: "c \<in> set (shortId_of t) \<Longrightarrow> lower_alnum c"
  by (auto simp: shortId_of_def lower_alnum_to_lower dest!: in_set_takeD)

lemma length_shortId: "length (shortId_of t) \<le> 10"
  by (simp add: shortId_of_def)

lemma lower_alnum_plain_char: "lower_alnum c \<Longrightarrow> c \<noteq> CHR ''/'' \<and> c \<noteq> CHR ''.''"
  by (auto simp: lower_alnum_def Let_def)

lemma string_of_nat_digits: "c \<in> set (string_of_nat n) \<Longrightarrow> c \<noteq> CHR ''/''"
proof -
  have "set (string_of_nat n) \<subseteq> set digit_chars"
  proof (induction n rule: string_of_nat.induct)
    case (1 n)
    have d: "digit_chars ! k \<in> set digit_chars" if "k < 10" for k
      using that by (intro nth_mem) (simp add: digit_chars_def)
    show ?case
    proof (cases "n < 10")
      case True
      then show ?thesis using d [of n] by (simp add: string_of_nat.simps [of n])
    next
      case False
      then show ?thesis using "1.IH" d [of "n mod 10"]
        by (simp add: string_of_nat.simps [of n])
    qed
  qed
  moreover assume "c \<in> set (string_of_nat n)"
  ultimately have "c \<in> set digit_chars" by blast
  then show ?thesis by (auto simp: digit_chars_def)
qed

lemma plain_name: "plain (if shortId_of t \<noteq> [] then shortId_of t else ''thread'')"
proof (cases "shortId_of t")
  case Nil
  then show ?thesis by (simp add: plain_def)
next
  case (Cons c cs)
  have all: "\<And>x. x \<in> set (shortId_of t) \<Longrightarrow> x \<noteq> CHR ''/'' \<and> x \<noteq> CHR ''.''"
    using shortId_lower_alnum lower_alnum_plain_char by blast
  then have "c \<noteq> CHR ''.''" and "CHR ''/'' \<notin> set (shortId_of t)" using Cons by auto
  then show ?thesis using Cons by (auto simp: plain_def)
qed

lemma plain_suffixed:
  assumes "plain x" and "hd x \<noteq> CHR ''.''"
  shows "plain (x @ ''-'' @ string_of_nat n)"
proof -
  from assms obtain c cs where x: "x = c # cs" and c: "c \<noteq> CHR ''.''"
    by (cases x) (auto simp: plain_def)
  have "CHR ''/'' \<notin> set (string_of_nat n)" using string_of_nat_digits by blast
  then show ?thesis using assms(1) x c by (auto simp: plain_def)
qed

lemma hd_name: "hd (if shortId_of t \<noteq> [] then shortId_of t else ''thread'') \<noteq> CHR ''.''"
proof (cases "shortId_of t")
  case Nil
  then show ?thesis by simp
next
  case (Cons c cs)
  then have "lower_alnum c" using shortId_lower_alnum [of c t] by simp
  then show ?thesis using Cons lower_alnum_plain_char by auto
qed

text \<open>
  Claim C9, as the code has it. Let \<open>shortId\<close> be the thread id with every character
  outside \<open>[A-Za-z0-9]\<close> removed, cut to 10 characters and lowercased, and let \<open>name\<close> be
  \<open>shortId\<close>, or \<open>thread\<close> when \<open>shortId\<close> is empty. When the repository root is found and
  \<open>mkdir\<close> succeeds, the first \<open>git worktree add\<close> runs in the repository root with the
  path \<open><repoRoot>/.ralph/worktrees/<name>\<close> and the branch \<open>ralph/thread-<shortId>\<close>; when
  \<open>shortId\<close> is empty the branch is \<open>ralph/thread-<t>\<close> for the current time \<open>t\<close> in
  milliseconds, not \<open>ralph/thread-thread\<close>. If that attempt exits with 0 no further
  attempt is made and its path and branch are returned; otherwise exactly one more
  attempt is made, with the branch and the path each followed by \<open>-\<close> and a timestamp
  (two successive readings of the clock).
\<close>

theorem createThreadWorktree_attempts:
  assumes "resolveRepoRoot env repoPath = Inr rootDir" and "mkdir_error env = None"
  shows "\<exists>name branch path reads.
      length (shortId_of threadId) \<le> 10
    \<and> name = (if shortId_of threadId = [] then ''thread'' else shortId_of threadId)
    \<and> path = (if rootDir = ''/'' then [] else rootDir) @ ''/.ralph/worktrees/'' @ name
    \<and> branch = ''ralph/thread-''
        @ (if shortId_of threadId = [] then string_of_nat (wt_now env 0) else shortId_of threadId)
    \<and> reads = (if shortId_of threadId = [] then 1 else 0)
    \<and> take 2 (snd (createThreadWorktree env repoPath threadId))
        = [(repoPath, [''rev-parse'', ''--show-toplevel'']),
           (rootDir, [''worktree'', ''add'', ''-b'', branch, path])]
    \<and> (if exitCode (git_run env 1 rootDir [''worktree'', ''add'', ''-b'', branch, path]) = 0
        then length (snd (createThreadWorktree env repoPath threadId)) = 2
           \<and> fst (createThreadWorktree env repoPath threadId)
               = Inr \<lparr> repoRoot = rootDir, wt_worktreePath = path, wt_branchName = branch \<rparr>
        else length (snd (createThreadWorktree env repoPath threadId)) = 3
           \<and> snd (createThreadWorktree env repoPath threadId) ! 2
               = (rootDir, [''worktree'', ''add'', ''-b'',
                         branch @ ''-'' @ string_of_nat (wt_now env reads),
                         path @ ''-'' @ string_of_nat (wt_now env (Suc reads))]))"
proof -
  let ?sid = "shortId_of threadId"
  let ?name = "if ?sid \<noteq> [] then ?sid else ''thread''"
  let ?reads = "if ?sid \<noteq> [] then 0 else (1::nat)"
  let ?name2 = "?name @ ''-'' @ string_of_nat (wt_now env (Suc ?reads))"
  from assms(1) obtain s where "rootDir = normalize_path s"
    by (auto simp: resolveRepoRoot_def resolve_def Let_def split: if_splits)
  with normalize_is_render [of s] obtain xs where xs: "list_all plain xs" and rootDir: "rootDir = render_path xs"
    by auto
  have pd: "plain ''.ralph''" and pw: "plain ''worktrees''" by (simp_all add: plain_def)
  have wroot: "resolve (process_cwd env) [rootDir, ''.ralph'', ''worktrees''] = render_path (xs @ [''.ralph'', ''worktrees''])"
    unfolding rootDir using xs pd pw by (rule resolve_grandchild)
  have xs2: "list_all plain (xs @ [''.ralph'', ''worktrees''])" using xs pd pw by simp
  have prefix: "render_path (xs @ [''.ralph'', ''worktrees'', a])
      = (if rootDir = ''/'' then [] else rootDir) @ ''/.ralph/worktrees/'' @ a" for a
    using render_path_root [OF xs] render_path_snoc [of "xs @ [''.ralph'', ''worktrees'']" a]
      render_path_snoc [of "xs @ [''.ralph'']" "''worktrees''"] render_path_snoc [of xs "''.ralph''"]
    by (simp add: rootDir)
  have p1: "resolve (process_cwd env) [render_path (xs @ [''.ralph'', ''worktrees'']), ?name]
      = (if rootDir = ''/'' then [] else rootDir) @ ''/.ralph/worktrees/'' @ ?name"
    using resolve_child [OF xs2 plain_name, of "process_cwd env" threadId] prefix [of ?name] by simp
  have "plain ?name2" using plain_name hd_name by (rule plain_suffixed)
  from resolve_child [OF xs2 this, of "process_cwd env"] prefix [of ?name2]
  have p2: "resolve (process_cwd env) [render_path (xs @ [''.ralph'', ''worktrees'']), ?name2]
      = (if rootDir = ''/'' then [] else rootDir) @ ''/.ralph/worktrees/'' @ ?name2"
    by simp
  show ?thesis
    using assms p1 p2
    by (simp add: createThreadWorktree_def Let_def wroot worktree_add_args_def length_shortId
        del: append_assoc split: if_splits)
qed

lemma sample_wt_eval:
  "resolveRepoRoot (sample_wt_env b) ''/srv/app/src'' = Inr ''/srv/app''"
  "mkdir_error (sample_wt_env b) = None"
  "process_cwd (sample_wt_env b) = ''/home/dev''"
  "wt_now (sample_wt_env b) k = 1700000000000 + k"
  "exitCode (git_run (sample_wt_env False) (Suc 0) d args) = 128"
  "exitCode (git_run (sample_wt_env True) (Suc 0) d args) = 0"
  by (simp_all add: resolveRepoRoot_def sample_wt_env_def sample_git_def trim_def is_ws_def nl_def
      resolve_def normalize_path_def is_absolute_def Let_def)

lemma shortId_eval:
  "shortId_of ''9F3c-11AA-bb22-zz'' = ''9f3c11aabb''"
  "shortId_of ''---'' = []"
  by code_simp+

lemma string_of_nat_eval:
  "string_of_nat 1700000000000 = ''1700000000000''"
  "string_of_nat 1700000000001 = ''1700000000001''"
  by (simp_all add: string_of_nat.simps digit_chars_def)

text \<open>The theorem for a thread id with capitals and dashes, in an environment where
  the first attempt fails.\<close>

theorem createThreadWorktree_attempts_witness:
  "resolveRepoRoot (sample_wt_env False) ''/srv/app/src'' = Inr ''/srv/app''
   \<and> mkdir_error (sample_wt_env False) = None
   \<and> length (snd (createThreadWorktree (sample_wt_env False) ''/srv/app/src'' ''9F3c-11AA-bb22-zz'')) = 3
   \<and> take 2 (snd (createThreadWorktree (sample_wt_env False) ''/srv/app/src'' ''9F3c-11AA-bb22-zz''))
       = [(''/srv/app/src'', [''rev-parse'', ''--show-toplevel'']),
          (''/srv/app'', [''worktree'', ''add'', ''-b'', ''ralph/thread-9f3c11aabb'',
                          ''/srv/app/.ralph/worktrees/9f3c11aabb''])]
   \<and> snd (createThreadWorktree (sample_wt_env False) ''/srv/app/src'' ''9F3c-11AA-bb22-zz'') ! 2
       = (''/srv/app'', [''worktree'', ''add'', ''-b'', ''ralph/thread-9f3c11aabb-1700000000000'',
                         ''/srv/app/.ralph/worktrees/9f3c11aabb-1700000000001''])"
  using createThreadWorktree_attempts
    [OF sample_wt_eval(1) [of False] sample_wt_eval(2) [of False], of "''9F3c-11AA-bb22-zz''"]
  by (simp add: sample_wt_eval shortId_eval string_of_nat_eval)

lemma first_attempt_empty_short_id:
  "snd (createThreadWorktree (sample_wt_env True) ''/srv/app/src'' ''---'') ! 1
     = (''/srv/app'', [''worktree'', ''add'', ''-b'', ''ralph/thread-1700000000000'',
                       ''/srv/app/.ralph/worktrees/thread''])"
  by (simp add: createThreadWorktree_def Let_def sample_wt_eval shortId_eval string_of_nat_eval
      worktree_add_args_def)
     (simp add: resolve_def normalize_path_def is_absolute_def Let_def)

text \<open>Claim C9 as stated fails for a thread id without letters and digits: the path of
  the first attempt ends in \<open>thread\<close>, but its branch is named after the clock.\<close>

theorem worktree_branch_of_empty_short_id:
  "\<not> (snd (createThreadWorktree (sample_wt_env True) ''/srv/app/src'' ''---'') ! 1
        = (''/srv/app'', [''worktree'', ''add'', ''-b'', ''ralph/thread-thread'',
                          ''/srv/app/.ralph/worktrees/thread'']))"
  using first_attempt_empty_short_id by simp

section \<open>Properties of the prompt builder\<close>

lemma occursI:
  "s = pre @ x @ post \<Longrightarrow> occurs_in_order xs post \<Longrightarrow> occurs_in_order (x # xs) s"
  by auto

lemma occursE:
  assumes "occurs_in_order (x # xs) s"
  obtains pre post where "s = pre @ x @ post" and "occurs_in_order xs post"
  using assms by auto

lemma occurs_single: "occurs_in_order [x] (pre @ x @ post)"
  by auto

declare occurs_in_order.simps(2) [simp del]

lemma occurs_self: "occurs_in_order [x] x"
  using occurs_single [of x "[]" "[]"] by simp

lemma occurs_prepend: "occurs_in_order xs s \<Longrightarrow> occurs_in_order xs (p @ s)"
proof (cases xs)
  case Nil
  then show ?thesis by simp
next
  case (Cons x ys)
  assume "occurs_in_order xs s"
  then obtain pre post where "s = pre @ x @ post" and r: "occurs_in_order ys post"
    using Cons by (auto elim: occursE)
  then have "p @ s = (p @ pre) @ x @ post" by simp
  then show ?thesis unfolding Cons using r by (rule occursI)
qed

lemma occurs_extend: "occurs_in_order xs s \<Longrightarrow> occurs_in_order xs (s @ q)"
proof (induction xs arbitrary: s)
  case Nil
  then show ?case by simp
next
  case (Cons x xs)
  then obtain pre post where s: "s = pre @ x @ post" and r: "occurs_in_order xs post"
    by (auto elim: occursE)
  have "s @ q = pre @ x @ (post @ q)" by (simp add: s)
  then show ?case using Cons.IH [OF r] by (rule occursI)
qed

lemma occurs_append:
  "occurs_in_order xs s \<Longrightarrow> occurs_in_order ys t \<Longrightarrow> occurs_in_order (xs @ ys) (s @ t)"
proof (induction xs arbitrary: s)
  case Nil
  then show ?case by (simp add: occurs_prepend)
next
  case (Cons x xs)
  then obtain pre post where s: "s = pre @ x @ post" and r: "occurs_in_order xs post"
    by (auto elim: occursE)
  have "s @ t = pre @ x @ (post @ t)" by (simp add: s)
  then have "occurs_in_order (x # (xs @ ys)) (s @ t)"
    using Cons.IH [OF r Cons.prems(2)] by (rule occursI)
  then show ?case by simp
qed

lemma occurs_join:
  "list_all2 occurs_in_order pss secs \<Longrightarrow> occurs_in_order (concat pss) (join sep secs)"
proof (induction pss secs rule: list_all2_induct)
  case Nil
  then show ?case by simp
next
  case (Cons ps pss sec secs)
  show ?case
  proof (cases secs)
    case Nil
    then have "pss = []" using Cons.hyps(2) by simp
    then show ?thesis using Nil Cons.hyps(1) by simp
  next
    case (Cons y ys)
    have "occurs_in_order (concat pss) (sep @ join sep secs)"
      using Cons.IH by (rule occurs_prepend)
    then have "occurs_in_order (ps @ concat pss) (sec @ sep @ join sep secs)"
      using Cons.hyps(1) by (intro occurs_append)
    then show ?thesis using Cons by simp
  qed
qed

lemma concat_map_nil: "concat (map (\<lambda>_. []) xs) = []"
  by (induction xs) simp_all

lemma concat_map_single: "concat (map (\<lambda>x. [x]) xs) = xs"
  by (induction xs) simp_all

lemma occurs_nothing: "list_all2 occurs_in_order (map (\<lambda>_. []) xs) xs"
  by (induction xs) simp_all

lemma header_parts:
  "occurs_in_order [projectLine ctx, positionLine t] (buildPrdHeader ctx t)"
proof -
  let ?desc = "case ctx_prdDescription ctx of Some d \<Rightarrow> if d \<noteq> [] then [d] else [] | None \<Rightarrow> []"
  let ?rest = "(case ctx_completedTasks ctx of
          Some cs \<Rightarrow>
            if cs \<noteq> []
            then [[], ''### Previously Completed Tasks'']
                 @ map (\<lambda>(i, n). ''- [x] `'' @ i @ ''`: '' @ n) cs
            else []
        | None \<Rightarrow> [])
     @ (if rt_index t < rt_total t
        then [[], ''*'' @ string_of_nat (rt_total t - rt_index t)
                    @ '' task(s) remaining after this one. Focus only on the current task.*'']
        else [])"
  have "list_all2 occurs_in_order
          ([[projectLine ctx]] @ map (\<lambda>_. []) ?desc @ [[], [positionLine t]] @ map (\<lambda>_. []) ?rest)
          ([projectLine ctx] @ ?desc @ [[], positionLine t] @ ?rest)"
    by (intro list_all2_appendI occurs_nothing) (simp_all add: occurs_self)
  then have "occurs_in_order
          (concat ([[projectLine ctx]] @ map (\<lambda>_. []) ?desc @ [[], [positionLine t]] @ map (\<lambda>_. []) ?rest))
          (join nl ([projectLine ctx] @ ?desc @ [[], positionLine t] @ ?rest))"
    by (rule occurs_join)
  moreover have "concat ([[projectLine ctx]] @ map (\<lambda>_. []) ?desc @ [[], [positionLine t]] @ map (\<lambda>_. []) ?rest)
      = [projectLine ctx, positionLine t]"
    by (simp add: concat_map_nil)
  ultimately show ?thesis
    unfolding buildPrdHeader_def prdHeaderLines_def by (simp only:)
qed

lemma completion_parts:
  "occurs_in_order [''## Completion'', ''    '' @ completionPromise ctx] (completionSection ctx)"
proof -
  have "list_all2 occurs_in_order
      [[''## Completion''], [], [], [''    '' @ completionPromise ctx], [], [], [], []]
      (completionLines ctx)"
    unfolding completionLines_def by (simp add: occurs_self)
  from occurs_join [OF this, of nl] show ?thesis
    by (simp add: completionSection_def)
qed

lemma occurs_each: "list_all2 occurs_in_order (map (\<lambda>x. [x]) xs) xs"
  by (induction xs) (simp_all add: occurs_self)

lemma occurs_lines: "occurs_in_order xs (join sep xs)"
  using occurs_join [OF occurs_each [of xs], of sep] by (simp add: concat_map_single)

lemma occurs_prefix: "occurs_in_order [x] (x @ post)"
  using occurs_single [of x "[]" post] by simp

lemma numbered_nth:
  "numbered f xs = map (\<lambda>k. f (Suc k) (xs ! k)) [0..<length xs]"
  unfolding numbered_def by (rule nth_equalityI) (simp_all add: enumerate_eq_zip)

lemma header_lines_parts:
  "occurs_in_order
     [''## Project: '' @ (case ctx_prdName ctx of Some n \<Rightarrow> n | None \<Rightarrow> ''Unnamed PRD''),
      ''**You are working on task '' @ string_of_nat (rt_index t) @ '' of ''
        @ string_of_nat (rt_total t) @ '': '' @ [CHR 0x22] @ rt_name t @ [CHR 0x22]
        @ ''** (id: `'' @ rt_id t @ ''`)'']
     (buildPrdHeader ctx t)"
  using header_parts [of ctx t] by (simp add: projectLine_def positionLine_def dquote_def)

lemma task_parts: "occurs_in_order [''## Your Task'' @ [CHR 0x0A] @ ctx_task ctx] (taskSection ctx)"
  by (simp add: taskSection_def nl_def occurs_self)

lemma criteria_parts:
  "occurs_in_order
     (''## Acceptance Criteria''
      # map (\<lambda>k. string_of_nat (Suc k) @ ''. '' @ acceptanceCriteria t ! k)
          [0..<length (acceptanceCriteria t)])
     (criteriaSection t)"
proof -
  let ?items = "map (\<lambda>k. string_of_nat (Suc k) @ ''. '' @ acceptanceCriteria t ! k)
          [0..<length (acceptanceCriteria t)]"
  have "occurs_in_order ?items (nl @ join nl ?items)"
    by (intro occurs_prepend occurs_lines)
  from occurs_append [OF occurs_self [of "''## Acceptance Criteria''"] this]
  show ?thesis by (simp add: criteriaSection_def numbered_nth)
qed

lemma rules_parts:
  "occurs_in_order
     ([''## Rules'',
       ''- You are iteration **'' @ string_of_nat (ctx_iteration ctx) @ ''** of **''
         @ string_of_nat (ctx_maxIterations ctx) @ ''**'',
       ''`'' @ ctx_progressFile ctx @ ''`'']
      @ map (\<lambda>k. ''  '' @ string_of_nat (Suc k) @ ''. `'' @ validationCommands ctx ! k @ ''`'')
          [0..<length (validationCommands ctx)])
     (rulesSection ctx)"
proof -
  let ?iter = "''- You are iteration **'' @ string_of_nat (ctx_iteration ctx) @ ''** of **''
         @ string_of_nat (ctx_maxIterations ctx) @ ''**''"
  let ?items = "map (\<lambda>k. ''  '' @ string_of_nat (Suc k) @ ''. `'' @ validationCommands ctx ! k @ ''`'')
          [0..<length (validationCommands ctx)]"
  have it: "occurs_in_order [?iter] (iterationLine ctx)"
    using occurs_prefix [of ?iter "'' in an automated Ralph Loop.''"]
    by (simp add: iterationLine_def)
  have tick: "occurs_in_order [''`'' @ ctx_progressFile ctx @ ''`'']
      (''- Read `'' @ ctx_progressFile ctx @ ''` FIRST to understand what has been done so far.'')"
    using occurs_single [of "''`'' @ ctx_progressFile ctx @ ''`''" "''- Read ''"
        "'' FIRST to understand what has been done so far.''"]
    by simp
  have cmds: "occurs_in_order ?items (commandLines ctx)"
    unfolding commandLines_def numbered_nth by (rule occurs_lines)
  have "list_all2 occurs_in_order
      [[''## Rules''], [?iter], [], [''`'' @ ctx_progressFile ctx @ ''`''], [], [], [], [], [],
       ?items, [], [], []]
      (rulesLines ctx)"
    unfolding rulesLines_def using tick it cmds by (simp add: occurs_self)
  from occurs_join [OF this, of nl] show ?thesis
    by (simp add: rulesSection_def)
qed

lemma progress_parts:
  "occurs_in_order
     [if progress_exists (ctx_progress ctx) \<and> trim (progress_content (ctx_progress ctx)) \<noteq> []
      then ''## Current Progress (from '' @ ctx_progressFile ctx @ '')'' @ [CHR 0x0A]
             @ progress_content (ctx_progress ctx)
      else ''## Current Progress'' @ [CHR 0x0A]
             @ ''This is the first iteration. No previous progress exists. Start from scratch.'']
     (progressSection ctx)"
  by (simp add: progressSection_def nl_def occurs_self)

lemma warning_parts:
  "occurs_in_order
     [''## WARNING: Previous Iteration Was Reverted'',
      ''Your previous iteration'' @ [CHR 0x27]
        @ ''s changes were reverted because they caused a **regression** '',
      '' more tests/validations failed than before. The codebase has been reset to the state before that iteration. Take a different approach this time.'']
     revertWarning"
proof -
  let ?a = "''Your previous iteration'' @ [CHR 0x27]
        @ ''s changes were reverted because they caused a **regression** ''"
  let ?b = "'' more tests/validations failed than before. The codebase has been reset to the state before that iteration. Take a different approach this time.''"
  have "occurs_in_order ([?a] @ [?b]) (?a @ em_dash @ ?b)"
    by (intro occurs_append occurs_self occurs_prepend)
  then have "list_all2 occurs_in_order
      [[''## WARNING: Previous Iteration Was Reverted''], [?a, ?b]]
      [''## WARNING: Previous Iteration Was Reverted'', ?a @ em_dash @ ?b]"
    by (simp add: occurs_self)
  from occurs_join [OF this, of nl] show ?thesis
    by (simp add: revertWarning_def squote_def)
qed

lemma failure_parts:
  "occurs_in_order [''## Previous Iteration Validation Results'' @ [CHR 0x0A] @ out] (failureSection out)"
  by (simp add: failureSection_def nl_def occurs_self)

text \<open>
  Claim C4, as the code has it. For every context the prompt contains, in this order: in
  PRD mode the project header (the line \<open>## Project: <name>\<close>, then the line with the
  position, the name and the id of the task); the heading \<open>## Your Task\<close> with the task
  on the next line; in PRD mode with at least one acceptance criterion the heading of
  the acceptance criteria and the criteria numbered from 1, in order; the rules block
  with the words naming iteration \<open>i\<close> of \<open>N\<close>, the progress file name in backticks and the
  validation commands numbered from 1, in order; the progress heading naming the progress
  file followed by the prior progress content, or else the first-iteration notice; the
  revert warning when \<open>wasReverted\<close> is true; the heading of the prior-failure block
  followed by \<open>lastFailureOutput\<close> when that is a non-empty string; and the completion
  instruction with the completion secret on a line of its own.
\<close>

theorem buildPrompt_parts_in_order:
  "occurs_in_order (promptParts ctx) (buildPrompt ctx)"
proof -
  let ?g1 = "case ctx_prdTask ctx of
      Some t \<Rightarrow>
        [[''## Project: '' @ (case ctx_prdName ctx of Some n \<Rightarrow> n | None \<Rightarrow> ''Unnamed PRD''),
          ''**You are working on task '' @ string_of_nat (rt_index t) @ '' of ''
            @ string_of_nat (rt_total t) @ '': '' @ [CHR 0x22] @ rt_name t @ [CHR 0x22]
            @ ''** (id: `'' @ rt_id t @ ''`)'']]
    | None \<Rightarrow> []"
  let ?s1 = "case ctx_prdTask ctx of Some t \<Rightarrow> [buildPrdHeader ctx t] | None \<Rightarrow> []"
  let ?g3 = "case ctx_prdTask ctx of
          Some t \<Rightarrow>
            if acceptanceCriteria t \<noteq> []
            then [''## Acceptance Criteria''
                 # map (\<lambda>k. string_of_nat (Suc k) @ ''. '' @ acceptanceCriteria t ! k)
                     [0..<length (acceptanceCriteria t)]]
            else []
        | None \<Rightarrow> []"
  let ?s3 = "case ctx_prdTask ctx of
          Some t \<Rightarrow> if acceptanceCriteria t \<noteq> [] then [criteriaSection t] else []
        | None \<Rightarrow> []"
  let ?g6 = "if ctx_wasReverted ctx = Some True
        then [[''## WARNING: Previous Iteration Was Reverted'',
              ''Your previous iteration'' @ [CHR 0x27]
                @ ''s changes were reverted because they caused a **regression** '',
              '' more tests/validations failed than before. The codebase has been reset to the state before that iteration. Take a different approach this time.'']]
        else []"
  let ?s6 = "if ctx_wasReverted ctx = Some True then [revertWarning] else []"
  let ?g7 = "case ctx_lastFailureOutput ctx of
          Some out \<Rightarrow>
            if out \<noteq> [] then [[''## Previous Iteration Validation Results'' @ [CHR 0x0A] @ out]] else []
        | None \<Rightarrow> []"
  let ?s7 = "case ctx_lastFailureOutput ctx of
          Some out \<Rightarrow> if out \<noteq> [] then [failureSection out] else []
        | None \<Rightarrow> []"
  let ?task = "[''## Your Task'' @ [CHR 0x0A] @ ctx_task ctx]"
  let ?rules = "[''## Rules'',
       ''- You are iteration **'' @ string_of_nat (ctx_iteration ctx) @ ''** of **''
         @ string_of_nat (ctx_maxIterations ctx) @ ''**'',
       ''`'' @ ctx_progressFile ctx @ ''`'']
      @ map (\<lambda>k. ''  '' @ string_of_nat (Suc k) @ ''. `'' @ validationCommands ctx ! k @ ''`'')
          [0..<length (validationCommands ctx)]"
  let ?progress = "[if progress_exists (ctx_progress ctx) \<and> trim (progress_content (ctx_progress ctx)) \<noteq> []
      then ''## Current Progress (from '' @ ctx_progressFile ctx @ '')'' @ [CHR 0x0A]
             @ progress_content (ctx_progress ctx)
      else ''## Current Progress'' @ [CHR 0x0A]
             @ ''This is the first iteration. No previous progress exists. Start from scratch.'']"
  let ?compl = "[''## Completion'', ''    '' @ completionPromise ctx]"
  have g1: "list_all2 occurs_in_order ?g1 ?s1"
  proof (cases "ctx_prdTask ctx")
    case None
    then show ?thesis by simp
  next
    case (Some t)
    then show ?thesis using header_lines_parts [of ctx t] by simp
  qed
  have g3: "list_all2 occurs_in_order ?g3 ?s3"
  proof (cases "ctx_prdTask ctx")
    case None
    then show ?thesis by simp
  next
    case (Some t)
    then show ?thesis using criteria_parts [of t] by simp
  qed
  have g6: "list_all2 occurs_in_order ?g6 ?s6"
    using warning_parts by simp
  have g7: "list_all2 occurs_in_order ?g7 ?s7"
  proof (cases "ctx_lastFailureOutput ctx")
    case None
    then show ?thesis by simp
  next
    case (Some out)
    then show ?thesis using failure_parts [of out] by simp
  qed
  have mid: "list_all2 occurs_in_order [?rules, ?progress] [rulesSection ctx, progressSection ctx]"
    using rules_parts [of ctx] progress_parts [of ctx] by simp
  have t: "list_all2 occurs_in_order [?task] [taskSection ctx]"
    using task_parts [of ctx] by simp
  have c: "list_all2 occurs_in_order [?compl] [completionSection ctx]"
    using completion_parts [of ctx] by simp
  have all: "list_all2 occurs_in_order
      (?g1 @ [?task] @ ?g3 @ [?rules, ?progress] @ ?g6 @ ?g7 @ [?compl])
      (promptSections ctx)"
    unfolding promptSections_def
    by (intro list_all2_appendI g1 t g3 mid g6 g7 c)
  have "concat (?g1 @ [?task] @ ?g3 @ [?rules, ?progress] @ ?g6 @ ?g7 @ [?compl]) = promptParts ctx"
    by (simp add: promptParts_def split: option.splits)
  with occurs_join [OF all, of "nl @ nl"] show ?thesis
    unfolding buildPrompt_def by (simp only:)
qed


lemma sample_parts:
  "promptParts sample_ctx =
     [''## Project: E-Commerce Platform'',
      ''**You are working on task 2 of 5: '' @ [CHR 0x22] @ ''Add Authentication'' @ [CHR 0x22]
        @ ''** (id: `auth`)'',
      ''## Your Task'' @ [CHR 0x0A] @ ''Implement user authentication with JWT'',
      ''## Acceptance Criteria'', ''1. Login works'', ''2. Tokens refresh'',
      ''## Rules'', ''- You are iteration **3** of **20**'', ''`ralph-progress.md`'',
      ''  1. `npm test`'', ''  2. `tsc --noEmit`'',
      ''## Current Progress'' @ [CHR 0x0A]
        @ ''This is the first iteration. No previous progress exists. Start from scratch.'',
      ''## WARNING: Previous Iteration Was Reverted'',
      ''Your previous iteration'' @ [CHR 0x27]
        @ ''s changes were reverted because they caused a **regression** '',
      '' more tests/validations failed than before. The codebase has been reset to the state before that iteration. Take a different approach this time.'',
      ''## Previous Iteration Validation Results'' @ [CHR 0x0A] @ ''TypeError: foo is not defined'',
      ''## Completion'', ''    RALPH_COMPLETE_test1234'']"
  by (simp add: promptParts_def)
     (simp add: sample_ctx_def sample_task_def string_of_nat.simps digit_chars_def)

text \<open>The theorem on the sample PRD context, with every part written out.\<close>

theorem buildPrompt_parts_in_order_witness:
  "occurs_in_order
     [''## Project: E-Commerce Platform'',
      ''**You are working on task 2 of 5: '' @ [CHR 0x22] @ ''Add Authentication'' @ [CHR 0x22]
        @ ''** (id: `auth`)'',
      ''## Your Task'' @ [CHR 0x0A] @ ''Implement user authentication with JWT'',
      ''## Acceptance Criteria'', ''1. Login works'', ''2. Tokens refresh'',
      ''## Rules'', ''- You are iteration **3** of **20**'', ''`ralph-progress.md`'',
      ''  1. `npm test`'', ''  2. `tsc --noEmit`'',
      ''## Current Progress'' @ [CHR 0x0A]
        @ ''This is the first iteration. No previous progress exists. Start from scratch.'',
      ''## WARNING: Previous Iteration Was Reverted'',
      ''Your previous iteration'' @ [CHR 0x27]
        @ ''s changes were reverted because they caused a **regression** '',
      '' more tests/validations failed than before. The codebase has been reset to the state before that iteration. Take a different approach this time.'',
      ''## Previous Iteration Validation Results'' @ [CHR 0x0A] @ ''TypeError: foo is not defined'',
      ''## Completion'', ''    RALPH_COMPLETE_test1234'']
     (buildPrompt sample_ctx)"
  using buildPrompt_parts_in_order [of sample_ctx] by (simp only: sample_parts)

lemma split_at_unique:
  assumes "h @ c # r = h' @ c # r'" and "c \<notin> set h" and "c \<notin> set r"
  shows "h' = h"
proof -
  from assms(1) consider u where "h = h' @ u" "u @ c # r = c # r'"
    | u where "h @ u = h'" "c # r = u @ c # r'"
    by (auto simp: append_eq_append_conv2)
  then show ?thesis
  proof cases
    case 1
    then show ?thesis using assms(2) by (cases u) auto
  next
    case 2
    then show ?thesis using assms(3) by (cases u) auto
  qed
qed

lemma not_after_unique_char:
  assumes s: "s = h @ c # r" and h: "c \<notin> set h" and r: "c \<notin> set r"
    and p: "c \<in> set p" and len: "length h < length t"
  shows "\<not> occurs_in_order [t, p] s"
proof
  assume "occurs_in_order [t, p] s"
  then obtain pre post where 1: "s = pre @ t @ post" and "occurs_in_order [p] post"
    by (rule occursE)
  then obtain a b where 2: "post = a @ p @ b" by (auto elim: occursE)
  from p obtain p1 p2 where 3: "p = p1 @ c # p2" by (auto simp: in_set_conv_decomp)
  have "h @ c # r = (pre @ t @ a @ p1) @ c # (p2 @ b)"
    using s 1 2 3 by simp
  from split_at_unique [OF this h r] have "length h = length (pre @ t @ a @ p1)" by simp
  then show False using len by simp
qed

lemma notin_joinI:
  "c \<notin> set sep \<Longrightarrow> list_all (\<lambda>x. c \<notin> set x) xs \<Longrightarrow> c \<notin> set (join sep xs)"
  by (induction sep xs rule: join.induct) auto

lemma sample_sections:
  "promptSections sample_ctx =
     [buildPrdHeader sample_ctx sample_task, taskSection sample_ctx, criteriaSection sample_task,
      rulesSection sample_ctx, progressSection sample_ctx, revertWarning,
      failureSection ''TypeError: foo is not defined'', completionSection sample_ctx]"
  by (simp add: promptSections_def) (simp add: sample_ctx_def sample_task_def)

lemma sample_header_lines:
  "prdHeaderLines sample_ctx sample_task =
     [''## Project: E-Commerce Platform'', ''Building a full e-commerce solution'', [],
      positionLine sample_task, [], ''### Previously Completed Tasks'',
      ''- [x] `setup`: Initial Setup'', [],
      ''*3 task(s) remaining after this one. Focus only on the current task.*'']"
  by (simp add: prdHeaderLines_def projectLine_def) (simp add: sample_ctx_def sample_task_def string_of_nat.simps digit_chars_def)

lemma sample_no_j:
  "CHR ''j'' \<notin> set (positionLine sample_task)"
  "CHR ''j'' \<notin> set (taskSection sample_ctx)"
  "CHR ''j'' \<notin> set (criteriaSection sample_task)"
  "CHR ''j'' \<notin> set (progressSection sample_ctx)"
  "CHR ''j'' \<notin> set (failureSection ''TypeError: foo is not defined'')"
  "CHR ''j'' \<notin> set (iterationLine sample_ctx)"
  "CHR ''j'' \<notin> set (commandLines sample_ctx)"
  by (simp_all add: positionLine_def taskSection_def criteriaSection_def progressSection_def
      failureSection_def iterationLine_def commandLines_def numbered_def enumerate_eq_zip
      sample_ctx_def sample_task_def nl_def dquote_def trim_def string_of_nat.simps digit_chars_def)

lemma sample_no_j_rules: "CHR ''j'' \<notin> set (rulesSection sample_ctx)"
  unfolding rulesSection_def
proof (rule notin_joinI)
  show "CHR ''j'' \<notin> set nl" by (simp add: nl_def)
  show "list_all (\<lambda>x. CHR ''j'' \<notin> set x) (rulesLines sample_ctx)"
    by (simp add: rulesLines_def em_dash_def sample_no_j) (simp add: sample_ctx_def)
qed

lemma sample_no_j_warning: "CHR ''j'' \<notin> set revertWarning"
  unfolding revertWarning_def
  by (rule notin_joinI) (simp_all add: nl_def squote_def em_dash_def)

lemma sample_no_j_completion: "CHR ''j'' \<notin> set (completionSection sample_ctx)"
  unfolding completionSection_def
proof (rule notin_joinI)
  show "CHR ''j'' \<notin> set nl" by (simp add: nl_def)
  show "list_all (\<lambda>x. CHR ''j'' \<notin> set x) (completionLines sample_ctx)"
    by (simp add: completionLines_def squote_def) (simp add: sample_ctx_def)
qed

lemma sample_prompt_split:
  "\<exists>r. buildPrompt sample_ctx = ''## Pro'' @ CHR ''j'' # r \<and> CHR ''j'' \<notin> set r"
proof -
  let ?lines = "[''Building a full e-commerce solution'', [],
      positionLine sample_task, [], ''### Previously Completed Tasks'',
      ''- [x] `setup`: Initial Setup'', [],
      ''*3 task(s) remaining after this one. Focus only on the current task.*'']"
  let ?secs = "[taskSection sample_ctx, criteriaSection sample_task,
      rulesSection sample_ctx, progressSection sample_ctx, revertWarning,
      failureSection ''TypeError: foo is not defined'', completionSection sample_ctx]"
  let ?r = "''ect: E-Commerce Platform'' @ nl @ join nl ?lines @ (nl @ nl) @ join (nl @ nl) ?secs"
  have eq: "buildPrompt sample_ctx = ''## Pro'' @ CHR ''j'' # ?r"
    by (simp add: buildPrompt_def sample_sections buildPrdHeader_def sample_header_lines)
  have l: "CHR ''j'' \<notin> set (join nl ?lines)"
    by (intro notin_joinI) (simp_all add: nl_def sample_no_j)
  have s: "CHR ''j'' \<notin> set (join (nl @ nl) ?secs)"
    by (intro notin_joinI)
       (simp_all add: nl_def sample_no_j sample_no_j_rules sample_no_j_warning sample_no_j_completion)
  have "CHR ''j'' \<notin> set ?r" using l s by (simp add: nl_def)
  with eq show ?thesis by blast
qed

text \<open>Claim C4 as stated puts the task before the project header. In the sample PRD
  context the project line does not occur anywhere after the task: the prompt starts
  with it.\<close>

theorem prompt_header_precedes_task:
  "\<not> occurs_in_order
       [''## Your Task'' @ [CHR 0x0A] @ ''Implement user authentication with JWT'',
        ''## Project: E-Commerce Platform'']
       (buildPrompt sample_ctx)"
proof -
  from sample_prompt_split obtain r
    where eq: "buildPrompt sample_ctx = ''## Pro'' @ CHR ''j'' # r" and r: "CHR ''j'' \<notin> set r"
    by blast
  have h: "CHR ''j'' \<notin> set ''## Pro''" by simp
  have p: "CHR ''j'' \<in> set ''## Project: E-Commerce Platform''" by simp
  have len: "length ''## Pro''
      < length (''## Your Task'' @ [CHR 0x0A] @ ''Implement user authentication with JWT'')"
    by simp
  show ?thesis by (rule not_after_unique_char [OF eq h r p len])
qed

section \<open>Properties of the iteration loop\<close>

lemma js_includes_iff: "js_includes s t = (\<exists>pre post. s = pre @ t @ post)"
proof (induction s)
  case Nil
  then show ?case by auto
next
  case (Cons c s)
  show ?case
  proof
    assume "js_includes (c # s) t"
    then consider "take (length t) (c # s) = t" | "js_includes s t" by auto
    then show "\<exists>pre post. c # s = pre @ t @ post"
    proof cases
      case 1
      then have "c # s = [] @ t @ drop (length t) (c # s)"
        by (metis append_Nil append_take_drop_id)
      then show ?thesis by blast
    next
      case 2
      then obtain pre post where "s = pre @ t @ post" using Cons.IH by blast
      then have "c # s = (c # pre) @ t @ post" by simp
      then show ?thesis by blast
    qed
  next
    assume "\<exists>pre post. c # s = pre @ t @ post"
    then obtain pre post where e: "c # s = pre @ t @ post" by blast
    show "js_includes (c # s) t"
    proof (cases pre)
      case Nil
      then have "take (length t) (c # s) = t" using e by simp
      then show ?thesis by simp
    next
      case (Cons a pre')
      then have "s = pre' @ t @ post" using e by simp
      then have "js_includes s t" using Cons.IH by blast
      then show ?thesis by simp
    qed
  qed
qed

lemma detectPromise_claimed:
  "detectPromise (agentOutput env opts i st) (env_promise env) = claimedAt env opts i st"
  by (simp add: detectPromise_def js_includes_iff claimedAt_def)

lemma runIteration_aborted:
  "aborted_at env i \<Longrightarrow>
   runIteration env opts i st = (Some (loopResult opts False (i - 1) (Some True)), st)"
  by (simp add: runIteration_def)

lemma runIteration_dryRun:
  "\<not> aborted_at env i \<Longrightarrow> dryRun opts \<Longrightarrow>
   fst (runIteration env opts i st) = Some (loopResult opts True 0 None)"
  by (simp add: runIteration_def Let_def)

lemma runIteration_success:
  assumes "\<not> aborted_at env i" and "\<not> dryRun opts"
    and "claimedAt env opts i st" and "allPassed (validationOf env opts i)"
  shows "runIteration env opts i st =
           (Some (loopResult opts True i None),
            perform ((Emit loop_iteration_started i [] # agentEvents env opts i st)
                     @ (if gitCheckpoint opts then [CommitAll (completeMessage opts i)] else [])) st)"
  using assms by (simp add: runIteration_def Let_def detectPromise_claimed perform_def)

lemma runIteration_continue:
  assumes "\<not> aborted_at env i" and "\<not> dryRun opts"
    and "\<not> (claimedAt env opts i st \<and> allPassed (validationOf env opts i))"
  shows "runIteration env opts i st =
           (None,
            perform (if opt_delay opts > 0 \<and> i < opt_maxIterations opts then [Sleep (opt_delay opts)] else [])
              (regressionHandling opts i (validationOf env opts i)
                 (perform (Emit loop_iteration_started i [] # agentEvents env opts i st) st)))"
  using assms by (auto simp add: runIteration_def Let_def detectPromise_claimed perform_def)

lemma loopResult_eq [simp]:
  "(loopResult opts a n c = loopResult opts a' n' c') = (a = a' \<and> n = n' \<and> c = c')"
  by (auto simp: loopResult_def)

lemma loopResult_sel [simp]:
  "success (loopResult opts a n c) = a" "loop_iterations (loopResult opts a n c) = n"
  "cancelled (loopResult opts a n c) = c"
  by (simp_all add: loopResult_def)

lemma length_filter_all: "(length (filter P xs) = length xs) = (\<forall>x\<in>set xs. P x)"
proof (induction xs)
  case Nil
  then show ?case by simp
next
  case (Cons x xs)
  have "length (filter P xs) \<noteq> Suc (length xs)"
    using length_filter_le [of P xs] by arith
  then show ?case using Cons by auto
qed

lemma runValidations_counts:
  "passCount (runValidations sh cmds)
     = length (filter (\<lambda>k. exitCode (sh k (cmds ! k)) = 0) [0..<length cmds])"
  "totalCount (runValidations sh cmds) = length cmds"
  "allPassed (runValidations sh cmds) = (\<forall>k<length cmds. exitCode (sh k (cmds ! k)) = 0)"
proof -
  have r: "map (\<lambda>(k, cmd). mkResult cmd (sh k cmd)) (enumerate 0 cmds)
     = map (\<lambda>k. mkResult (cmds ! k) (sh k (cmds ! k))) [0..<length cmds]"
    by (rule nth_equalityI) (simp_all add: enumerate_eq_zip)
  have f: "length (filter passed (map (\<lambda>k. mkResult (cmds ! k) (sh k (cmds ! k))) [0..<length cmds]))
     = length (filter (\<lambda>k. exitCode (sh k (cmds ! k)) = 0) [0..<length cmds])"
    by (simp add: filter_map o_def mkResult_def)
  show "passCount (runValidations sh cmds)
     = length (filter (\<lambda>k. exitCode (sh k (cmds ! k)) = 0) [0..<length cmds])"
    unfolding runValidations_def Let_def r using f by simp
  show "totalCount (runValidations sh cmds) = length cmds"
    unfolding runValidations_def Let_def r by simp
  have "allPassed (runValidations sh cmds)
      = (length (filter (\<lambda>k. exitCode (sh k (cmds ! k)) = 0) [0..<length cmds])
         = length [0..<length cmds])"
    unfolding runValidations_def Let_def r using f by simp
  also have "\<dots> = (\<forall>k<length cmds. exitCode (sh k (cmds ! k)) = 0)"
    unfolding length_filter_all by auto
  finally show "allPassed (runValidations sh cmds) = (\<forall>k<length cmds. exitCode (sh k (cmds ! k)) = 0)" .
qed


lemma claimedAt_output:
  "claimedAt env opts i st
     = (\<exists>pre post. stdout (agent_run env i (iterationPrompt env opts i st)) @ [CHR 0x0A]
                        @ stderr (agent_run env i (iterationPrompt env opts i st))
                      = pre @ env_promise env @ post)"
  by (simp add: claimedAt_def agentOutput_def Let_def nl_def)

lemma validationOf_counts:
  "allPassed (validationOf env opts i)
     = (\<forall>k<length (opt_validate opts). exitCode (shell_run env i k (opt_validate opts ! k)) = 0)"
  "passCount (validationOf env opts i)
     = length (filter (\<lambda>k. exitCode (shell_run env i k (opt_validate opts ! k)) = 0)
                 [0..<length (opt_validate opts)])"
  "scoreValidation (validationOf env opts i)
     = length (filter (\<lambda>k. exitCode (shell_run env i k (opt_validate opts ! k)) = 0)
                 [0..<length (opt_validate opts)])"
  "totalCount (validationOf env opts i) = length (opt_validate opts)"
  by (simp_all add: validationOf_def runValidations_counts scoreValidation_def)

lemma effects_perform [simp]: "effects (perform es st) = effects st @ es"
  by (simp add: perform_def)

lemma iterate_returns:
  "i \<le> opt_maxIterations opts \<Longrightarrow> fst (runIteration env opts i st) = Some r \<Longrightarrow>
   iterate env opts i st = (r, snd (runIteration env opts i st))"
  by (cases "runIteration env opts i st") (simp add: iterate.simps [of env opts i st])

lemma statesAfter_None:
  "i \<le> opt_maxIterations opts \<Longrightarrow> fst (runIteration env opts i st) = None \<Longrightarrow> Suc i = j \<Longrightarrow>
   statesAfter env opts i st
     = snd (runIteration env opts i st) # statesAfter env opts j (snd (runIteration env opts i st))"
  by (cases "runIteration env opts i st") (simp add: statesAfter.simps [of env opts i st])

lemma statesAfter_Some:
  "fst (runIteration env opts i st) = Some r \<Longrightarrow> statesAfter env opts i st = []"
  by (cases "runIteration env opts i st") (simp add: statesAfter.simps [of env opts i st])

lemma iterate_None:
  "i \<le> opt_maxIterations opts \<Longrightarrow> fst (runIteration env opts i st) = None \<Longrightarrow> Suc i = j \<Longrightarrow>
   iterate env opts i st = iterate env opts j (snd (runIteration env opts i st))"
  by (cases "runIteration env opts i st") (simp add: iterate.simps [of env opts i st])

lemma iterate_Some:
  "i \<le> opt_maxIterations opts \<Longrightarrow> fst (runIteration env opts i st) = Some r \<Longrightarrow>
   fst (iterate env opts i st) = r"
  by (cases "runIteration env opts i st") (simp add: iterate.simps [of env opts i st])

text \<open>
  Claim C1. For every iteration \<open>i \<ge> 1\<close> and every state in which the loop body is
  entered, with \<open>result\<close> the result of the agent process of the iteration: the body
  returns a result with \<open>success = true\<close> and \<open>iterations = i\<close> if and only if the run is
  neither aborted nor a dry run (so that the agent is spawned), the completion secret
  occurs in \<open>result.stdout + "\n" + result.stderr\<close>, and every validation command of the
  iteration exits with code 0. On that path the body returns
  \<open>{success: true, iterations: i, taskId}\<close>, and what it has done by then is exactly: the
  four events of the iteration (started, agent spawned, agent exited, validation
  completed) and then, with checkpoints enabled, one \<open>commitAll\<close> with the message
  \<open>ralph: [<taskId>] complete (iteration i)\<close> in PRD mode and
  \<open>ralph: task complete (iteration i)\<close> otherwise; \<open>runTaskLoop\<close> returns that result. When
  the secret is found but some validation command fails, the body does not return: after
  the four events it goes through the regression handling (a revert when the score fell
  below \<open>bestScore\<close>, else a checkpoint commit, with checkpoints enabled), records the
  failure context, waits for the delay, and the loop goes on with iteration \<open>i + 1\<close>.
\<close>

theorem loop_success_path:
  assumes "0 < i"
  shows
    "let prompt = iterationPrompt env opts i st;
         result = agent_run env i prompt;
         commands = opt_validate opts;
         secret_found = (\<exists>pre post. stdout result @ [CHR 0x0A] @ stderr result
                                      = pre @ env_promise env @ post);
         exit_zero = (\<lambda>k. exitCode (shell_run env i k (commands ! k)) = 0);
         all_pass = (\<forall>k<length commands. exit_zero k);
         n_pass = length (filter exit_zero [0..<length commands]);
         events =
           [Emit loop_iteration_started i [],
            Emit loop_agent_spawned i
              [(''command'', JStr (fst (build_command env prompt))),
               (''args'', JList (map JStr (snd (build_command env prompt))))],
            Emit loop_agent_exited i
              [(''exitCode'', JNum (exitCode result)),
               (''duration'', JNum (int (duration result)))],
            Emit loop_validation_completed i
              [(''passCount'', JNum (int n_pass)),
               (''totalCount'', JNum (int (length commands))),
               (''allPassed'', JBool all_pass)]];
         returned = \<lparr> success = True, loop_iterations = i,
                      taskId = map_option rt_id (opt_prdTask opts), cancelled = None \<rparr>;
         outcome = runIteration env opts i st
     in ((\<exists>r. fst outcome = Some r \<and> success r \<and> loop_iterations r = i)
           = (\<not> aborted_at env i \<and> \<not> dryRun opts \<and> secret_found \<and> all_pass))
        \<and> (\<not> aborted_at env i \<and> \<not> dryRun opts \<and> secret_found \<and> all_pass \<longrightarrow>
             fst outcome = Some returned
             \<and> effects (snd outcome)
                 = effects st @ events
                   @ (if gitCheckpoint opts
                      then [CommitAll
                             (case opt_prdTask opts of
                                Some t \<Rightarrow> ''ralph: ['' @ rt_id t @ ''] complete (iteration ''
                                            @ string_of_nat i @ '')''
                              | None \<Rightarrow> ''ralph: task complete (iteration ''
                                            @ string_of_nat i @ '')'')]
                      else [])
             \<and> (i \<le> opt_maxIterations opts \<longrightarrow>
                  iterate env opts i st = (returned, snd outcome)))
        \<and> (\<not> aborted_at env i \<and> \<not> dryRun opts \<and> secret_found \<and> \<not> all_pass \<longrightarrow>
             fst outcome = None
             \<and> effects (snd outcome)
                 = effects st @ events
                   @ (if gitCheckpoint opts
                      then (if n_pass < bestScore st
                            then [RevertToLastCommit, Emit loop_regression_reverted i []]
                            else [CommitAll (checkpointMessage opts i n_pass (length commands)),
                                  Emit loop_checkpoint_committed i
                                    [(''score'', JNum (int n_pass)),
                                     (''total'', JNum (int (length commands)))]])
                      else [])
                   @ (if 0 < opt_delay opts \<and> i < opt_maxIterations opts
                      then [Sleep (opt_delay opts)] else [])
             \<and> wasReverted (snd outcome) = (gitCheckpoint opts \<and> n_pass < bestScore st)
             \<and> lastFailureOutput (snd outcome)
                 = formatFailureContext (runValidations (shell_run env i) commands)
                     (failureContextMaxChars opts)
             \<and> (i \<le> opt_maxIterations opts \<longrightarrow>
                  iterate env opts i st = iterate env opts (Suc i) (snd outcome)))"
proof -
  let ?found = "\<exists>pre post. stdout (agent_run env i (iterationPrompt env opts i st)) @ [CHR 0x0A]
                        @ stderr (agent_run env i (iterationPrompt env opts i st))
                      = pre @ env_promise env @ post"
  let ?pass = "\<forall>k<length (opt_validate opts). exitCode (shell_run env i k (opt_validate opts ! k)) = 0"
  let ?out = "runIteration env opts i st"
  have c: "claimedAt env opts i st = ?found" by (rule claimedAt_output)
  have a: "allPassed (validationOf env opts i) = ?pass" by (rule validationOf_counts(1))
  have iff: "(\<exists>r. fst ?out = Some r \<and> success r \<and> loop_iterations r = i)
           = (\<not> aborted_at env i \<and> \<not> dryRun opts \<and> ?found \<and> ?pass)"
  proof (cases "aborted_at env i")
    case True
    then show ?thesis by (simp add: runIteration_aborted)
  next
    case na: False
    show ?thesis
    proof (cases "dryRun opts")
      case True
      then show ?thesis using na assms by (simp add: runIteration_dryRun)
    next
      case nd: False
      show ?thesis
      proof (cases "claimedAt env opts i st \<and> allPassed (validationOf env opts i)")
        case True
        then show ?thesis using na nd c a by (simp add: runIteration_success)
      next
        case False
        then show ?thesis using na nd c a runIteration_continue [OF na nd False] by auto
      qed
    qed
  qed
  have ok: "fst ?out = Some (loopResult opts True i None)
       \<and> effects (snd ?out)
           = effects st @ (Emit loop_iteration_started i [] # agentEvents env opts i st)
             @ (if gitCheckpoint opts then [CommitAll (completeMessage opts i)] else [])
       \<and> (i \<le> opt_maxIterations opts \<longrightarrow>
             iterate env opts i st = (loopResult opts True i None, snd ?out))"
    if "\<not> aborted_at env i \<and> \<not> dryRun opts \<and> ?found \<and> ?pass"
  proof -
    from that c a have r: "runIteration env opts i st =
           (Some (loopResult opts True i None),
            perform ((Emit loop_iteration_started i [] # agentEvents env opts i st)
                     @ (if gitCheckpoint opts then [CommitAll (completeMessage opts i)] else [])) st)"
      by (intro runIteration_success) simp_all
    then have "fst ?out = Some (loopResult opts True i None)" by simp
    from iterate_returns [OF _ this] r show ?thesis by simp
  qed
  have go: "fst ?out = None
       \<and> effects (snd ?out)
           = effects st @ (Emit loop_iteration_started i [] # agentEvents env opts i st)
             @ (if gitCheckpoint opts
                then (if scoreValidation (validationOf env opts i) < bestScore st
                      then [RevertToLastCommit, Emit loop_regression_reverted i []]
                      else [CommitAll (checkpointMessage opts i (scoreValidation (validationOf env opts i))
                                         (totalCount (validationOf env opts i))),
                            Emit loop_checkpoint_committed i
                              [(''score'', JNum (int (scoreValidation (validationOf env opts i)))),
                               (''total'', JNum (int (totalCount (validationOf env opts i))))]])
                else [])
             @ (if 0 < opt_delay opts \<and> i < opt_maxIterations opts
                then [Sleep (opt_delay opts)] else [])
       \<and> wasReverted (snd ?out)
           = (gitCheckpoint opts \<and> scoreValidation (validationOf env opts i) < bestScore st)
       \<and> lastFailureOutput (snd ?out)
           = formatFailureContext (validationOf env opts i) (failureContextMaxChars opts)
       \<and> (i \<le> opt_maxIterations opts \<longrightarrow>
             iterate env opts i st = iterate env opts (Suc i) (snd ?out))"
    if "\<not> aborted_at env i \<and> \<not> dryRun opts \<and> ?found \<and> \<not> ?pass"
  proof -
    from that c a have r: "runIteration env opts i st =
           (None,
            perform (if opt_delay opts > 0 \<and> i < opt_maxIterations opts then [Sleep (opt_delay opts)] else [])
              (regressionHandling opts i (validationOf env opts i)
                 (perform (Emit loop_iteration_started i [] # agentEvents env opts i st) st)))"
      by (intro runIteration_continue) simp_all
    then have n: "fst ?out = None" by simp
    have it: "i \<le> opt_maxIterations opts \<longrightarrow>
             iterate env opts i st = iterate env opts (Suc i) (snd ?out)"
      using iterate_None [OF _ n refl] by blast
    show ?thesis
      using n it unfolding r
      by (simp add: regressionHandling_def Let_def perform_def)
  qed
  show ?thesis
    unfolding Let_def
    using iff ok go
    by (simp add: agentEvents_def Let_def validationOf_counts loopResult_def completeMessage_def
        validationOf_def [symmetric])
qed


lemma bestScore_perform [simp]: "bestScore (perform es st) = bestScore st"
  by (simp add: perform_def)

lemma bestScore_regressionHandling:
  "bestScore (regressionHandling opts i v st)
     = (if gitCheckpoint opts \<and> bestScore st < scoreValidation v then scoreValidation v
        else bestScore st)"
  by (simp add: regressionHandling_def Let_def)

lemma runIteration_None:
  assumes "fst (runIteration env opts i st) = None"
  shows "\<not> aborted_at env i \<and> \<not> dryRun opts
         \<and> \<not> (claimedAt env opts i st \<and> allPassed (validationOf env opts i))"
proof (intro conjI notI)
  assume "aborted_at env i"
  then show False using assms by (simp add: runIteration_aborted)
next
  assume "dryRun opts"
  then show False using assms
    by (cases "aborted_at env i") (simp_all add: runIteration_aborted runIteration_dryRun)
next
  assume c: "claimedAt env opts i st \<and> allPassed (validationOf env opts i)"
  show False
  proof (cases "aborted_at env i \<or> dryRun opts")
    case True
    then show ?thesis using assms
      by (cases "aborted_at env i") (simp_all add: runIteration_aborted runIteration_dryRun)
  next
    case False
    then show ?thesis using assms c by (simp add: runIteration_success)
  qed
qed

lemma bestScore_runIteration_None:
  assumes "fst (runIteration env opts i st) = None"
  shows "bestScore (snd (runIteration env opts i st))
     = (if gitCheckpoint opts \<and> bestScore st < scoreValidation (validationOf env opts i)
        then scoreValidation (validationOf env opts i) else bestScore st)"
proof -
  from runIteration_None [OF assms] have "\<not> aborted_at env i" and "\<not> dryRun opts"
    and "\<not> (claimedAt env opts i st \<and> allPassed (validationOf env opts i))" by auto
  from runIteration_continue [OF this] show ?thesis
    by (simp add: bestScore_regressionHandling)
qed

lemma bestScore_runIteration_Some:
  assumes "fst (runIteration env opts i st) = Some r"
  shows "bestScore (snd (runIteration env opts i st)) = bestScore st"
proof (cases "aborted_at env i")
  case True
  then show ?thesis by (simp add: runIteration_aborted)
next
  case na: False
  show ?thesis
  proof (cases "dryRun opts")
    case True
    then show ?thesis using na by (simp add: runIteration_def Let_def)
  next
    case nd: False
    show ?thesis
    proof (cases "claimedAt env opts i st \<and> allPassed (validationOf env opts i)")
      case True
      then show ?thesis using na nd by (simp add: runIteration_success)
    next
      case False
      from runIteration_continue [OF na nd False] assms show ?thesis by simp
    qed
  qed
qed

lemma bestScore_runIteration_le:
  "bestScore st \<le> bestScore (snd (runIteration env opts i st))"
proof (cases "fst (runIteration env opts i st)")
  case None
  then show ?thesis by (simp add: bestScore_runIteration_None)
next
  case (Some r)
  then show ?thesis by (simp add: bestScore_runIteration_Some)
qed

lemma sorted_statesAfter:
  "sorted (map bestScore (st # statesAfter env opts i st))"
proof (induction env opts i st rule: statesAfter.induct)
  case (1 env opts i st)
  show ?case
  proof (cases "i \<le> opt_maxIterations opts")
    case False
    then show ?thesis by (simp add: statesAfter.simps [of env opts i st])
  next
    case le: True
    obtain res st' where r: "runIteration env opts i st = (res, st')"
      by (cases "runIteration env opts i st")
    show ?thesis
    proof (cases res)
      case (Some a)
      then show ?thesis using le r by (simp add: statesAfter.simps [of env opts i st])
    next
      case None
      have "bestScore st \<le> bestScore st'"
        using bestScore_runIteration_le [of st env opts i] r by simp
      moreover have "sorted (map bestScore (st' # statesAfter env opts (Suc i) st'))"
        using "1.IH" [OF le r [symmetric]] None by simp
      ultimately have "sorted (bestScore st # bestScore st' # map bestScore (statesAfter env opts (Suc i) st'))"
        by (simp only: sorted2 list.map)
      then show ?thesis
        using le r None by (simp add: statesAfter.simps [of env opts i st] del: sorted_simps)
    qed
  qed
qed

lemma bestScore_iterate_le:
  "bestScore st \<le> bestScore (snd (iterate env opts i st))"
proof (induction env opts i st rule: iterate.induct)
  case (1 env opts i st)
  show ?case
  proof (cases "i \<le> opt_maxIterations opts")
    case False
    then show ?thesis by (simp add: iterate.simps [of env opts i st])
  next
    case le: True
    obtain res st' where r: "runIteration env opts i st = (res, st')"
      by (cases "runIteration env opts i st")
    have step: "bestScore st \<le> bestScore st'"
      using bestScore_runIteration_le [of st env opts i] r by simp
    show ?thesis
    proof (cases res)
      case (Some a)
      then show ?thesis using le r step by (simp add: iterate.simps [of env opts i st])
    next
      case None
      have "bestScore st' \<le> bestScore (snd (iterate env opts (Suc i) st'))"
        using "1.IH" [OF le r [symmetric]] None by simp
      then show ?thesis
        using le r None step by (simp add: iterate.simps [of env opts i st])
    qed
  qed
qed

text \<open>
  Claim C2. \<open>bestScore\<close> starts as the score of the baseline validation. An iteration
  that runs to its end leaves \<open>bestScore\<close> as it was, except that with checkpoints
  enabled a score strictly above it becomes the new \<open>bestScore\<close>; an iteration that
  returns does not change it. So the \<open>bestScore\<close> values after the regression handling of
  the successive completed iterations of a run, starting from the baseline, are
  non-decreasing, and the value at the end of the run is at least the baseline.
\<close>

theorem bestScore_monotone:
  "bestScore (initialState env opts) = scoreValidation (validationOf env opts 0)
   \<and> sorted (map bestScore (initialState env opts # statesAfter env opts 1 (initialState env opts)))
   \<and> bestScore (initialState env opts) \<le> bestScore (snd (runTaskLoop env opts))
   \<and> bestScore st \<le> bestScore (snd (runIteration env opts i st))
   \<and> (fst (runIteration env opts i st) = None \<longrightarrow>
        bestScore (snd (runIteration env opts i st))
          = (if gitCheckpoint opts \<and> bestScore st < scoreValidation (validationOf env opts i)
             then scoreValidation (validationOf env opts i) else bestScore st))"
proof (intro conjI impI)
  show "bestScore (initialState env opts) = scoreValidation (validationOf env opts 0)"
    by (simp add: initialState_def)
  show "sorted (map bestScore (initialState env opts # statesAfter env opts 1 (initialState env opts)))"
    by (rule sorted_statesAfter)
  show "bestScore (initialState env opts) \<le> bestScore (snd (runTaskLoop env opts))"
    unfolding runTaskLoop_def by (rule bestScore_iterate_le)
  show "bestScore st \<le> bestScore (snd (runIteration env opts i st))"
    by (rule bestScore_runIteration_le)
next
  assume "fst (runIteration env opts i st) = None"
  then show "bestScore (snd (runIteration env opts i st))
          = (if gitCheckpoint opts \<and> bestScore st < scoreValidation (validationOf env opts i)
             then scoreValidation (validationOf env opts i) else bestScore st)"
    by (rule bestScore_runIteration_None)
qed

lemma sample_validation_eval:
  "scoreValidation (validationOf sample_env sample_opts 0) = 1"
  "scoreValidation (validationOf sample_env sample_opts (Suc 0)) = 0"
  "scoreValidation (validationOf sample_env sample_opts 2) = 2"
  "scoreValidation (validationOf sample_env sample_opts 3) = 2"
  "allPassed (validationOf sample_env sample_opts (Suc 0)) = False"
  "allPassed (validationOf sample_env sample_opts 2) = True"
  "allPassed (validationOf sample_env sample_opts 3) = True"
  "totalCount (validationOf sample_env sample_opts 2) = 2"
  by (simp_all add: validationOf_def runValidations_def scoreValidation_def sample_env_def
      sample_opts_def sample_shell_def mkResult_def Let_def enumerate_eq_zip)

lemma sample_claimed_eval:
  "claimedAt sample_env sample_opts (Suc 0) st = True"
  "claimedAt sample_env sample_opts 2 st = False"
  "claimedAt sample_env sample_opts 3 st = True"
  by (simp_all add: detectPromise_claimed [symmetric] detectPromise_def agentOutput_def
      sample_env_def sample_agent_def nl_def)

lemma sample_flags_eval:
  "aborted_at sample_env i = False" "dryRun sample_opts = False" "gitCheckpoint sample_opts = True"
  "opt_maxIterations sample_opts = 3" "opt_delay sample_opts = 0" "opt_prdTask sample_opts = None"
  by (simp_all add: sample_env_def sample_opts_def)

lemma sample_pass_eval:
  "passCount (validationOf sample_env sample_opts (Suc 0)) = 0"
  "passCount (validationOf sample_env sample_opts 3) = 2"
  by (simp_all add: validationOf_def runValidations_def sample_env_def
      sample_opts_def sample_shell_def mkResult_def Let_def enumerate_eq_zip)

lemma sample_initial_eval:
  "effects (initialState sample_env sample_opts) = [InitProgress ''fix the tests'', HeadSha]"
  "bestScore (initialState sample_env sample_opts) = 1"
  "length (opt_validate sample_opts) = 2"
  by (simp_all add: initialState_def sample_validation_eval)
     (simp_all add: sample_env_def sample_opts_def)

text \<open>The theorem on the sample run: iteration 3, where the secret is printed and both
  commands pass, returns success after the commit, and iteration 1, where the secret is
  printed while both commands fail, is reverted and does not return.\<close>

theorem loop_success_path_witness:
  "0 < (3::nat)
   \<and> fst (runIteration sample_env sample_opts 3 (initialState sample_env sample_opts))
       = Some \<lparr> success = True, loop_iterations = 3, taskId = None, cancelled = None \<rparr>
   \<and> drop 5 (effects (snd (runIteration sample_env sample_opts 3 (initialState sample_env sample_opts))))
       = [Emit loop_validation_completed 3
            [(''passCount'', JNum 2), (''totalCount'', JNum 2), (''allPassed'', JBool True)],
          CommitAll ''ralph: task complete (iteration 3)'']
   \<and> fst (iterate sample_env sample_opts 3 (initialState sample_env sample_opts))
       = \<lparr> success = True, loop_iterations = 3, taskId = None, cancelled = None \<rparr>
   \<and> fst (runIteration sample_env sample_opts 1 (initialState sample_env sample_opts)) = None
   \<and> drop 5 (effects (snd (runIteration sample_env sample_opts 1 (initialState sample_env sample_opts))))
       = [Emit loop_validation_completed 1
            [(''passCount'', JNum 0), (''totalCount'', JNum 2), (''allPassed'', JBool False)],
          RevertToLastCommit, Emit loop_regression_reverted 1 []]
   \<and> wasReverted (snd (runIteration sample_env sample_opts 1 (initialState sample_env sample_opts)))"
proof -
  let ?st0 = "initialState sample_env sample_opts"
  have three: "0 < (3::nat)" and one: "0 < (1::nat)" by simp_all
  have s3: "string_of_nat 3 = ''3''" by (simp add: string_of_nat.simps digit_chars_def)
  note a = loop_success_path [OF three, of sample_env sample_opts ?st0,
      unfolded Let_def, folded claimedAt_output validationOf_counts(1,2)]
  note b = loop_success_path [OF one, of sample_env sample_opts ?st0,
      unfolded Let_def, folded claimedAt_output validationOf_counts(1,2)]
  from a have a1: "fst (runIteration sample_env sample_opts 3 ?st0)
       = Some \<lparr> success = True, loop_iterations = 3, taskId = None, cancelled = None \<rparr>"
    and a2: "drop 5 (effects (snd (runIteration sample_env sample_opts 3 ?st0)))
       = [Emit loop_validation_completed 3
            [(''passCount'', JNum 2), (''totalCount'', JNum 2), (''allPassed'', JBool True)],
          CommitAll ''ralph: task complete (iteration 3)'']"
    and a3: "fst (iterate sample_env sample_opts 3 ?st0)
       = \<lparr> success = True, loop_iterations = 3, taskId = None, cancelled = None \<rparr>"
    by (simp_all add: sample_validation_eval sample_claimed_eval sample_flags_eval s3
        sample_pass_eval sample_initial_eval)
  from b have b1: "fst (runIteration sample_env sample_opts 1 ?st0) = None"
    and b2: "drop 5 (effects (snd (runIteration sample_env sample_opts 1 ?st0)))
       = [Emit loop_validation_completed 1
            [(''passCount'', JNum 0), (''totalCount'', JNum 2), (''allPassed'', JBool False)],
          RevertToLastCommit, Emit loop_regression_reverted 1 []]"
    and b3: "wasReverted (snd (runIteration sample_env sample_opts 1 ?st0))"
    by (simp_all add: sample_validation_eval sample_claimed_eval sample_flags_eval
        sample_pass_eval sample_initial_eval)
  show ?thesis using a1 a2 a3 b1 b2 b3 by simp
qed


lemma sample_run_states:
  "map bestScore (statesAfter sample_env sample_opts 1 (initialState sample_env sample_opts)) = [1, 2]"
  "fst (runTaskLoop sample_env sample_opts) = loopResult sample_opts True 3 None"
proof -
  let ?st0 = "initialState sample_env sample_opts"
  let ?r1 = "runIteration sample_env sample_opts 1 ?st0"
  let ?r2 = "runIteration sample_env sample_opts 2 (snd ?r1)"
  let ?r3 = "runIteration sample_env sample_opts 3 (snd ?r2)"
  have b0: "bestScore ?st0 = 1" by (simp add: initialState_def sample_validation_eval)
  have c1: "\<not> (claimedAt sample_env sample_opts 1 ?st0 \<and> allPassed (validationOf sample_env sample_opts 1))"
    by (simp add: sample_validation_eval)
  have n1: "fst ?r1 = None"
    using runIteration_continue [OF _ _ c1] by (simp add: sample_flags_eval)
  have b1: "bestScore (snd ?r1) = 1"
    using bestScore_runIteration_None [OF n1] b0
    by (simp add: sample_validation_eval sample_flags_eval)
  have c2: "\<not> (claimedAt sample_env sample_opts 2 (snd ?r1) \<and> allPassed (validationOf sample_env sample_opts 2))"
    by (simp add: sample_claimed_eval)
  have n2: "fst ?r2 = None"
    using runIteration_continue [OF _ _ c2] by (simp add: sample_flags_eval)
  have b2: "bestScore (snd ?r2) = 2"
    using bestScore_runIteration_None [OF n2] b1
    by (simp add: sample_validation_eval sample_flags_eval)
  have s3: "fst ?r3 = Some (loopResult sample_opts True 3 None)"
    using runIteration_success [of sample_env 3 sample_opts "snd ?r2"]
    by (simp add: sample_flags_eval sample_claimed_eval sample_validation_eval)
  have "statesAfter sample_env sample_opts 1 ?st0
          = snd ?r1 # statesAfter sample_env sample_opts 2 (snd ?r1)"
    by (rule statesAfter_None [OF _ n1]) (simp_all add: sample_flags_eval)
  also have "statesAfter sample_env sample_opts 2 (snd ?r1)
          = snd ?r2 # statesAfter sample_env sample_opts 3 (snd ?r2)"
    by (rule statesAfter_None [OF _ n2]) (simp_all add: sample_flags_eval)
  also have "statesAfter sample_env sample_opts 3 (snd ?r2) = []"
    by (rule statesAfter_Some [OF s3])
  finally show "map bestScore (statesAfter sample_env sample_opts 1 ?st0) = [1, 2]"
    using b1 b2 by simp
  have "iterate sample_env sample_opts 1 ?st0 = iterate sample_env sample_opts 2 (snd ?r1)"
    by (rule iterate_None [OF _ n1]) (simp_all add: sample_flags_eval)
  also have "\<dots> = iterate sample_env sample_opts 3 (snd ?r2)"
    by (rule iterate_None [OF _ n2]) (simp_all add: sample_flags_eval)
  finally have "fst (iterate sample_env sample_opts 1 ?st0)
      = fst (iterate sample_env sample_opts 3 (snd ?r2))" by simp
  also have "\<dots> = loopResult sample_opts True 3 None"
    by (rule iterate_Some [OF _ s3]) (simp add: sample_flags_eval)
  finally show "fst (runTaskLoop sample_env sample_opts) = loopResult sample_opts True 3 None"
    by (simp add: runTaskLoop_def)
qed

text \<open>The theorem on the sample run: the scores are 1 at the baseline, 1 after the
  reverted first iteration and 2 after the second.\<close>

theorem bestScore_monotone_witness:
  "bestScore (initialState sample_env sample_opts) = 1
   \<and> map bestScore (initialState sample_env sample_opts
                     # statesAfter sample_env sample_opts 1 (initialState sample_env sample_opts))
       = [1, 1, 2]
   \<and> sorted [1, 1, 2 :: nat]
   \<and> fst (runIteration sample_env sample_opts 1 (initialState sample_env sample_opts)) = None
   \<and> bestScore (snd (runIteration sample_env sample_opts 1 (initialState sample_env sample_opts))) = 1"
proof -
  have n1: "fst (runIteration sample_env sample_opts 1 (initialState sample_env sample_opts)) = None"
    using runIteration_continue [of sample_env 1 sample_opts "initialState sample_env sample_opts"]
    by (simp add: sample_flags_eval sample_validation_eval)
  from bestScore_monotone [of sample_env sample_opts "initialState sample_env sample_opts" 1] n1
    sample_run_states(1)
  show ?thesis
    by (simp add: sample_validation_eval sample_flags_eval)
qed

section \<open>Properties of the automation scheduler\<close>

lemma Date_now_fields [simp]:
  "runs (snd (Date_now st)) = runs st"
  "threads (snd (Date_now st)) = threads st"
  "automations (snd (Date_now st)) = automations st"
  "uuids (snd (Date_now st)) = uuids st"
  "uuid_draws (snd (Date_now st)) = uuid_draws st"
  by (simp_all add: Date_now_def)

lemma emitEvent_fields [simp]:
  "runs (emitEvent t r ty pl st) = runs st"
  "threads (emitEvent t r ty pl st) = threads st"
  "automations (emitEvent t r ty pl st) = automations st"
  "uuids (emitEvent t r ty pl st) = uuids st"
  "uuid_draws (emitEvent t r ty pl st) = uuid_draws st"
  by (simp_all add: emitEvent_def appendEvent_def Date_now_def Let_def)


lemma markAutomationTriggered_fields [simp]:
  "runs (markAutomationTriggered i st) = runs st"
  "threads (markAutomationTriggered i st) = threads st"
  "journal (markAutomationTriggered i st) = journal st"
  "uuids (markAutomationTriggered i st) = uuids st"
  "uuid_draws (markAutomationTriggered i st) = uuid_draws st"
  by (simp_all add: markAutomationTriggered_def Date_now_def Let_def)

lemma touchThread_fields [simp]:
  "automations (touchThread t st) = automations st"
  "uuids (touchThread t st) = uuids st"
  "uuid_draws (touchThread t st) = uuid_draws st"
  by (simp_all add: touchThread_def Date_now_def Let_def)

lemma find_map_key:
  assumes "\<And>x. k (f x) = k x"
  shows "find (\<lambda>x. k x = i) (map f xs) = map_option f (find (\<lambda>x. k x = i) xs)"
  by (induction xs) (simp_all add: assms)

lemma getThread_touchThread_None [simp]:
  "(getThread (touchThread f st) t = None) = (getThread st t = None)"
  by (simp add: getThread_def touchThread_def Date_now_def Let_def find_map_key)




lemma triggered_automations_append [simp]:
  "triggered_automations (xs @ ys) = triggered_automations xs @ triggered_automations ys"
  by (simp add: triggered_automations_def)



















lemma sample_automation_sel [simp]:
  "automation_id (sample_automation i c t n e l) = i"
  "cron (sample_automation i c t n e l) = c"
  "automation_threadId (sample_automation i c t n e l) = t"
  "automation_maxIterations (sample_automation i c t n e l) = n"
  "enabled (sample_automation i c t n e l) = e"
  by (simp_all add: sample_automation_def)




end
